theory Spec2Isabelle
  imports Main "HOL-Library.AList" "HOL-Library.Char_ord" "HOL-Library.List_Lexorder" "HOL-Library.Product_Lexorder"
begin

section \<open>Hydrogen-bond stratification and water-bridge inference of getcontacts\<close>

text \<open>
  The development embeds \<^verbatim>\<open>contact_calc/stratify_hbonds.py\<close> and the function
  \<^verbatim>\<open>calc_water_to_residues_map\<close> of \<^verbatim>\<open>contact_calc/contact_utils.py\<close>.
  Atom labels are Python strings of the shape \<^verbatim>\<open>chain:resname:resid:name:index\<close>; they are
  modelled as \<^typ>\<open>string\<close>. A hydrogen bond is the 4-tuple
  \<^verbatim>\<open>(frame_idx, atom1_label, atom2_label, itype)\<close>. Output rows are Python lists that mix
  an integer with strings, hence lists of \<open>pyval\<close>. Exceptions are values of \<open>error\<close>.
\<close>

subsection \<open>Data model\<close>

datatype error = IndexError | ValueError

datatype pyval = PyInt int | PyStr string

type_synonym hbond = "int \<times> string \<times> string \<times> string"

type_synonym row = "pyval list"

subsection \<open>Python string primitives\<close>

text \<open>\<^verbatim>\<open>needle in haystack\<close> on strings: the needle occurs as a contiguous substring.\<close>

fun str_in :: "string \<Rightarrow> string \<Rightarrow> bool" where
  "str_in s [] = (s = [])"
| "str_in s (c # cs) = (take (length s) (c # cs) = s \<or> str_in s cs)"

text \<open>\<^verbatim>\<open>s.split(sep)\<close> for a one-character separator: never returns the empty list.\<close>

fun str_split :: "char \<Rightarrow> string \<Rightarrow> string list" where
  "str_split sep [] = [[]]"
| "str_split sep (c # cs) =
     (if c = sep then [] # str_split sep cs
      else (case str_split sep cs of [] \<Rightarrow> [[c]] | w # ws \<Rightarrow> (c # w) # ws))"

text \<open>\<^verbatim>\<open>xs[i]\<close> for a non-negative index: raises \<^verbatim>\<open>IndexError\<close> out of range.\<close>

definition index :: "'a list \<Rightarrow> nat \<Rightarrow> error + 'a" where
  "index xs i = (if i < length xs then Inr (xs ! i) else Inl IndexError)"

subsection \<open>\<^verbatim>\<open>residue_vs_water_hbonds\<close>\<close>

fun residue_vs_water_loop ::
  "hbond list \<Rightarrow> string \<Rightarrow> hbond list \<times> hbond list \<Rightarrow> hbond list \<times> hbond list" where
  "residue_vs_water_loop [] solvent_resn acc = acc"
| "residue_vs_water_loop ((frame_idx, atom1_label, atom2_label, itype) # rest) solvent_resn
       (residue_hbonds, water_hbonds) =
     (if str_in solvent_resn atom1_label \<or> str_in solvent_resn atom2_label
      then residue_vs_water_loop rest solvent_resn
             (residue_hbonds, water_hbonds @ [(frame_idx, atom1_label, atom2_label, itype)])
      else residue_vs_water_loop rest solvent_resn
             (residue_hbonds @ [(frame_idx, atom1_label, atom2_label, itype)], water_hbonds))"

definition residue_vs_water_hbonds :: "hbond list \<Rightarrow> string \<Rightarrow> hbond list \<times> hbond list" where
  "residue_vs_water_hbonds hbonds solvent_resn = residue_vs_water_loop hbonds solvent_resn ([], [])"

subsection \<open>\<^verbatim>\<open>stratify_residue_hbonds\<close>\<close>

definition backbone_atoms :: "string list" where
  "backbone_atoms = [''N'', ''O'']"

text \<open>\<^verbatim>\<open>atom_label.split(":")[3]\<close>, the atom-name field of a label.\<close>

definition atom_name :: "string \<Rightarrow> error + string" where
  "atom_name atom_label = index (str_split CHR '':'' atom_label) 3"

fun stratify_residue_loop ::
  "hbond list \<Rightarrow> row list \<times> row list \<times> row list \<Rightarrow> error + (row list \<times> row list \<times> row list)" where
  "stratify_residue_loop [] acc = Inr acc"
| "stratify_residue_loop ((frame_idx, atom1_label, atom2_label, itype) # rest) (hbss, hbsb, hbbb) =
     (case atom_name atom1_label of
        Inl e \<Rightarrow> Inl e
      | Inr atom1 \<Rightarrow>
     (case atom_name atom2_label of
        Inl e \<Rightarrow> Inl e
      | Inr atom2 \<Rightarrow>
        (let hbss' = (if atom1 \<notin> set backbone_atoms \<and> atom2 \<notin> set backbone_atoms
                      then hbss @ [[PyInt frame_idx, PyStr ''hbss'', PyStr atom1_label, PyStr atom2_label]]
                      else hbss);
             hbsb' = (if (atom1 \<notin> set backbone_atoms \<and> atom2 \<in> set backbone_atoms) \<or>
                         (atom1 \<in> set backbone_atoms \<and> atom2 \<notin> set backbone_atoms)
                      then hbsb @ [[PyInt frame_idx, PyStr ''hbsb'', PyStr atom1_label, PyStr atom2_label]]
                      else hbsb);
             hbbb' = (if atom1 \<in> set backbone_atoms \<and> atom2 \<in> set backbone_atoms
                      then hbbb @ [[PyInt frame_idx, PyStr ''hbbb'', PyStr atom1_label, PyStr atom2_label]]
                      else hbbb)
         in stratify_residue_loop rest (hbss', hbsb', hbbb'))))"

definition stratify_residue_hbonds :: "hbond list \<Rightarrow> error + (row list \<times> row list \<times> row list)" where
  "stratify_residue_hbonds residue_hbonds = stratify_residue_loop residue_hbonds ([], [], [])"

subsection \<open>Python sets and dictionaries\<close>

text \<open>
  A Python \<^verbatim>\<open>set\<close> is modelled by a duplicate-free list and \<^verbatim>\<open>s.add(x)\<close> by \<open>set_add\<close>.
  Every set of the program is passed through \<^verbatim>\<open>sorted\<close> before its elements can be
  observed in the output, so its iteration order does not matter. A \<^verbatim>\<open>dict\<close> is an
  association list with unique keys (\<^const>\<open>map_of\<close> looks a key up, \<^const>\<open>AList.update\<close>
  stores a value). \<^verbatim>\<open>sorted\<close> is \<^const>\<open>sort\<close>: Python compares strings and tuples
  lexicographically, which are the orders of \<^typ>\<open>string\<close> and of products here.
\<close>

definition set_add :: "'a \<Rightarrow> 'a list \<Rightarrow> 'a list" where
  "set_add x xs = (if x \<in> set xs then xs else xs @ [x])"

type_synonym water_map = "(string \<times> string list) list"

subsection \<open>\<^verbatim>\<open>calc_water_to_residues_map\<close>\<close>

text \<open>
  \<^verbatim>\<open>if water not in water_to_residues: water_to_residues[water] = set()\<close> followed by
  \<^verbatim>\<open>water_to_residues[water].add(protein)\<close>.
\<close>

definition add_residue :: "string \<Rightarrow> string \<Rightarrow> water_map \<Rightarrow> water_map" where
  "add_residue water protein water_to_residues =
     (case map_of water_to_residues water of
        None \<Rightarrow> AList.update water (set_add protein []) water_to_residues
      | Some residues \<Rightarrow> AList.update water (set_add protein residues) water_to_residues)"

text \<open>
  The first loop. The state is \<^verbatim>\<open>(frame_idx, water_to_residues, _solvent_bridges)\<close>;
  the loop variable \<^verbatim>\<open>frame_idx\<close> is rebound by every iteration. The \<^verbatim>\<open>else\<close> branch
  raises \<^verbatim>\<open>ValueError("Solvent residue name can't be resolved")\<close>.
\<close>

fun water_map_loop ::
  "hbond list \<Rightarrow> string \<Rightarrow> int \<times> water_map \<times> (string \<times> string) list
     \<Rightarrow> error + (int \<times> water_map \<times> (string \<times> string) list)" where
  "water_map_loop [] solvent_resn st = Inr st"
| "water_map_loop ((frame_idx, atom1_label, atom2_label, itype) # rest) solvent_resn
       (frame_idx0, water_to_residues, solvent_bridges0) =
     (if str_in solvent_resn atom1_label \<and> str_in solvent_resn atom2_label
      then water_map_loop rest solvent_resn
             (frame_idx, water_to_residues, solvent_bridges0 @ [(atom1_label, atom2_label)])
      else if str_in solvent_resn atom1_label \<and> \<not> str_in solvent_resn atom2_label
      then water_map_loop rest solvent_resn
             (frame_idx, add_residue atom1_label atom2_label water_to_residues, solvent_bridges0)
      else if \<not> str_in solvent_resn atom1_label \<and> str_in solvent_resn atom2_label
      then water_map_loop rest solvent_resn
             (frame_idx, add_residue atom2_label atom1_label water_to_residues, solvent_bridges0)
      else Inl ValueError)"

text \<open>The second loop: remove duplicate solvent bridges.\<close>

fun dedup_loop :: "(string \<times> string) list \<Rightarrow> (string \<times> string) list \<Rightarrow> (string \<times> string) list" where
  "dedup_loop [] solvent_bridges = solvent_bridges"
| "dedup_loop ((water1, water2) # rest) solvent_bridges =
     (if (water1, water2) \<notin> set solvent_bridges \<and> (water2, water1) \<notin> set solvent_bridges
      then dedup_loop rest (set_add (water1, water2) solvent_bridges)
      else dedup_loop rest solvent_bridges)"

definition calc_water_to_residues_map ::
  "hbond list \<Rightarrow> string \<Rightarrow> error + (int \<times> water_map \<times> (string \<times> string) list)" where
  "calc_water_to_residues_map water_hbonds solvent_resn =
     (case water_map_loop water_hbonds solvent_resn (0, [], []) of
        Inl e \<Rightarrow> Inl e
      | Inr (frame_idx, water_to_residues, solvent_bridges0) \<Rightarrow>
          Inr (frame_idx, water_to_residues, sort (dedup_loop solvent_bridges0 [])))"

subsection \<open>\<^verbatim>\<open>stratify_water_bridge\<close>\<close>

text \<open>\<^verbatim>\<open>itertools.combinations(xs, 2)\<close>: the pairs of positions \<open>i < j\<close>, in order.\<close>

fun combinations2 :: "'a list \<Rightarrow> ('a \<times> 'a) list" where
  "combinations2 [] = []"
| "combinations2 (x # xs) = map (Pair x) xs @ combinations2 xs"

type_synonym wb_entry = "int \<times> string \<times> string \<times> string \<times> string"

definition water_bridges_of ::
  "int \<Rightarrow> water_map \<Rightarrow> string \<Rightarrow> wb_entry list \<Rightarrow> wb_entry list" where
  "water_bridges_of frame_idx water_to_residues water water_bridges =
     (case map_of water_to_residues water of
        None \<Rightarrow> water_bridges
      | Some residues \<Rightarrow>
          fold (\<lambda>(res_atom1, res_atom2) acc.
                  if res_atom1 \<noteq> res_atom2
                  then set_add (frame_idx, ''wb'', res_atom1, res_atom2, water) acc
                  else acc)
               (combinations2 (sort residues)) water_bridges)"

text \<open>
  The source sorts the entries after turning each tuple into a list. Python compares lists
  of equal shape field by field, as it compares the tuples, so the model sorts the tuples
  and converts them afterwards.
\<close>

definition stratify_water_bridge :: "hbond list \<Rightarrow> string \<Rightarrow> error + row list" where
  "stratify_water_bridge water_hbonds solvent_resn =
     (case calc_water_to_residues_map water_hbonds solvent_resn of
        Inl e \<Rightarrow> Inl e
      | Inr (frame_idx, water_to_residues, _) \<Rightarrow>
          (let water_bridges =
                 fold (water_bridges_of frame_idx water_to_residues) (map fst water_to_residues) []
           in Inr (map (\<lambda>(frame_idx, itype, res_atom1, res_atom2, water).
                          [PyInt frame_idx, PyStr itype, PyStr res_atom1, PyStr res_atom2, PyStr water])
                       (sort water_bridges))))"

subsection \<open>\<^verbatim>\<open>stratify_extended_water_bridge\<close>\<close>

type_synonym wb2_entry = "int \<times> string \<times> string \<times> string \<times> string \<times> string"

definition extended_bridges_of ::
  "int \<Rightarrow> water_map \<Rightarrow> string \<times> string \<Rightarrow> wb2_entry list \<Rightarrow> wb2_entry list" where
  "extended_bridges_of frame_idx water_to_residues = (\<lambda>(water1, water2) extended_water_bridges.
     (case (map_of water_to_residues water1, map_of water_to_residues water2) of
        (Some res_atom1_list, Some res_atom2_list) \<Rightarrow>
          fold (\<lambda>atom1 acc1.
                  fold (\<lambda>atom2 acc2. set_add (frame_idx, ''wb2'', atom1, atom2, water1, water2) acc2)
                       res_atom2_list acc1)
               res_atom1_list extended_water_bridges
      | _ \<Rightarrow> extended_water_bridges))"

text \<open>
  The last loop of the source unpacks each sorted 6-tuple into the names
  \<^verbatim>\<open>frame_idx, atom1, water1, water2, atom2, itype\<close> and appends the list of these six
  names in the same order: the row has the components of the tuple in the tuple's order.
\<close>

definition stratify_extended_water_bridge :: "hbond list \<Rightarrow> string \<Rightarrow> error + row list" where
  "stratify_extended_water_bridge water_hbonds solvent_resn =
     (case calc_water_to_residues_map water_hbonds solvent_resn of
        Inl e \<Rightarrow> Inl e
      | Inr (frame_idx, water_to_residues, solvent_bridges) \<Rightarrow>
          (let extended_water_bridges =
                 sort (fold (extended_bridges_of frame_idx water_to_residues) solvent_bridges [])
           in Inr (map (\<lambda>(frame_idx, atom1, water1, water2, atom2, itype).
                          [PyInt frame_idx, PyStr atom1, PyStr water1, PyStr water2, PyStr atom2, PyStr itype])
                       extended_water_bridges)))"

subsection \<open>\<^verbatim>\<open>stratify_hbond_subtypes\<close>\<close>

definition stratify_hbond_subtypes :: "hbond list \<Rightarrow> string \<Rightarrow> error + row list" where
  "stratify_hbond_subtypes hbonds solvent_resn =
     (case residue_vs_water_hbonds hbonds solvent_resn of (residue_hbonds, water_hbonds) \<Rightarrow>
      (case stratify_residue_hbonds residue_hbonds of
         Inl e \<Rightarrow> Inl e
       | Inr (hbss, hbsb, hbbb) \<Rightarrow>
      (case stratify_water_bridge water_hbonds solvent_resn of
         Inl e \<Rightarrow> Inl e
       | Inr wb \<Rightarrow>
      (case stratify_extended_water_bridge water_hbonds solvent_resn of
         Inl e \<Rightarrow> Inl e
       | Inr wb2 \<Rightarrow> Inr (hbss @ hbsb @ hbbb @ wb @ wb2)))))"

subsection \<open>Vocabulary of the statements\<close>

text \<open>A label has an atom-name field when it splits into at least four colon-separated fields.\<close>

definition has_atom_name :: "string \<Rightarrow> bool" where
  "has_atom_name atom_label = (3 < length (str_split CHR '':'' atom_label))"

text \<open>The atom-name field of the label is one of \<^const>\<open>backbone_atoms\<close>.\<close>

definition backbone :: "string \<Rightarrow> bool" where
  "backbone atom_label =
     (case atom_name atom_label of Inl e \<Rightarrow> False | Inr a \<Rightarrow> a \<in> set backbone_atoms)"

text \<open>The row that \<^const>\<open>stratify_residue_loop\<close> appends for a contact, with its subtype tag.\<close>

definition subtype_row :: "string \<Rightarrow> hbond \<Rightarrow> row" where
  "subtype_row tag = (\<lambda>(frame_idx, atom1_label, atom2_label, itype).
     [PyInt frame_idx, PyStr tag, PyStr atom1_label, PyStr atom2_label])"

text \<open>A contact, and a four-field row, with the two atom labels exchanged.\<close>

definition swap_labels :: "hbond \<Rightarrow> hbond" where
  "swap_labels = (\<lambda>(frame_idx, atom1_label, atom2_label, itype).
     (frame_idx, atom2_label, atom1_label, itype))"

definition swap_row :: "row \<Rightarrow> row" where
  "swap_row r = (case r of [f, t, a1, a2] \<Rightarrow> [f, t, a2, a1] | _ \<Rightarrow> r)"

text \<open>
  The solvent token is a substring of the residue-name field (the second colon-separated
  field) of the label. The source never extracts this field; the predicate states the
  reading under which the residue-name match is compared with the source's test.
\<close>

definition resname_contains :: "string \<Rightarrow> string \<Rightarrow> bool" where
  "resname_contains solvent_resn atom_label =
     (case index (str_split CHR '':'' atom_label) 1 of
        Inl e \<Rightarrow> False
      | Inr resname \<Rightarrow> str_in solvent_resn resname)"

text \<open>
  The contacts of a batch by number of solvent sides, in batch order: the label pairs of the
  contacts with the token in both labels, and the (water, protein) pairs of the contacts with
  the token in exactly one label.
\<close>

fun solvent_pairs :: "string \<Rightarrow> hbond list \<Rightarrow> (string \<times> string) list" where
  "solvent_pairs tok [] = []"
| "solvent_pairs tok ((f, a1, a2, t) # hs) =
     (if str_in tok a1 \<and> str_in tok a2 then (a1, a2) # solvent_pairs tok hs
      else solvent_pairs tok hs)"

fun water_protein_pairs :: "string \<Rightarrow> hbond list \<Rightarrow> (string \<times> string) list" where
  "water_protein_pairs tok [] = []"
| "water_protein_pairs tok ((f, a1, a2, t) # hs) =
     (if str_in tok a1 \<and> \<not> str_in tok a2 then (a1, a2) # water_protein_pairs tok hs
      else if \<not> str_in tok a1 \<and> str_in tok a2 then (a2, a1) # water_protein_pairs tok hs
      else water_protein_pairs tok hs)"

text \<open>Neither label of the contact contains the token.\<close>

definition no_solvent :: "string \<Rightarrow> hbond \<Rightarrow> bool" where
  "no_solvent tok = (\<lambda>(f, a1, a2, t). \<not> str_in tok a1 \<and> \<not> str_in tok a2)"

text \<open>The set stored under a key of the water-to-residues dictionary (empty without the key).\<close>

definition partners :: "water_map \<Rightarrow> string \<Rightarrow> string set" where
  "partners m w = (case map_of m w of None \<Rightarrow> {} | Some ps \<Rightarrow> set ps)"

text \<open>Invariant of the dictionary: unique keys, each value a non-empty duplicate-free list.\<close>

definition water_map_ok :: "water_map \<Rightarrow> bool" where
  "water_map_ok m \<longleftrightarrow> distinct (map fst m) \<and> (\<forall>w ps. map_of m w = Some ps \<longrightarrow> ps \<noteq> [] \<and> distinct ps)"

text \<open>
  The entries that the body of the loop of \<^const>\<open>stratify_water_bridge\<close> adds for one
  water, and those that the loop of \<^const>\<open>stratify_extended_water_bridge\<close> adds for one
  solvent bridge, as sets.
\<close>

definition wb_entries :: "int \<Rightarrow> water_map \<Rightarrow> string \<Rightarrow> wb_entry set" where
  "wb_entries f m w =
     (case map_of m w of
        None \<Rightarrow> {}
      | Some ps \<Rightarrow> (\<lambda>(r1, r2). (f, ''wb'', r1, r2, w)) ` {(r1, r2). (r1, r2) \<in> set (combinations2 (sort ps)) \<and> r1 \<noteq> r2})"

definition wb2_entries :: "int \<Rightarrow> water_map \<Rightarrow> string \<times> string \<Rightarrow> wb2_entry set" where
  "wb2_entries f m = (\<lambda>(w1, w2).
     (\<lambda>(a1, a2). (f, ''wb2'', a1, a2, w1, w2)) ` (partners m w1 \<times> partners m w2))"

text \<open>The conversions of sorted tuples to rows at the end of the two functions.\<close>

definition wb_row :: "wb_entry \<Rightarrow> row" where
  "wb_row = (\<lambda>(frame_idx, itype, res_atom1, res_atom2, water).
     [PyInt frame_idx, PyStr itype, PyStr res_atom1, PyStr res_atom2, PyStr water])"

definition wb2_row :: "wb2_entry \<Rightarrow> row" where
  "wb2_row = (\<lambda>(frame_idx, atom1, water1, water2, atom2, itype).
     [PyInt frame_idx, PyStr atom1, PyStr water1, PyStr water2, PyStr atom2, PyStr itype])"

section \<open>Residue-residue stratification\<close>

lemma atom_name_Inr: "has_atom_name l \<Longrightarrow> \<exists>a. atom_name l = Inr a"
  by (simp add: has_atom_name_def atom_name_def index_def)

lemma stratify_residue_loop_buckets:
  assumes "\<forall>(f, a1, a2, t) \<in> set hs. has_atom_name a1 \<and> has_atom_name a2"
  shows "stratify_residue_loop hs (ss, sb, bb) =
     Inr (ss @ map (subtype_row ''hbss'') (filter (\<lambda>(f, a1, a2, t). \<not> backbone a1 \<and> \<not> backbone a2) hs),
          sb @ map (subtype_row ''hbsb'') (filter (\<lambda>(f, a1, a2, t). backbone a1 \<noteq> backbone a2) hs),
          bb @ map (subtype_row ''hbbb'') (filter (\<lambda>(f, a1, a2, t). backbone a1 \<and> backbone a2) hs))"
  using assms
proof (induction hs arbitrary: ss sb bb)
  case Nil
  then show ?case by simp
next
  case (Cons h hs)
  obtain f a1 a2 t where h: "h = (f, a1, a2, t)" by (cases h) auto
  from Cons.prems h obtain n1 n2 where n: "atom_name a1 = Inr n1" "atom_name a2 = Inr n2"
    using atom_name_Inr by fastforce
  from Cons.prems have rest: "\<forall>(f, a1, a2, t) \<in> set hs. has_atom_name a1 \<and> has_atom_name a2"
    by simp
  show ?case
    unfolding h using n Cons.IH [OF rest]
    by (auto simp: backbone_def subtype_row_def Let_def)
qed

lemma partition_length3:
  "length (filter (\<lambda>(f, a1, a2, t). \<not> P a1 \<and> \<not> P a2) hs)
   + length (filter (\<lambda>(f, a1, a2, t). P a1 \<noteq> P a2) hs)
   + length (filter (\<lambda>(f, a1, a2, t). P a1 \<and> P a2) (hs :: hbond list)) = length hs"
  by (induction hs) auto

lemma subtype_row_mem:
  "subtype_row tag (f, a1, a2, t) \<in> set (map (subtype_row tag) (filter (\<lambda>(f, a1, a2, t). Q a1 a2) hs))
   \<longleftrightarrow> (\<exists>t'. (f, a1, a2, t') \<in> set hs) \<and> Q a1 a2"
  by (auto simp: subtype_row_def image_iff)

text \<open>
  Claim C1. For every list of residue-residue contacts whose labels have an atom-name field,
  \<^const>\<open>stratify_residue_hbonds\<close> returns three buckets: the contacts with no backbone atom
  name (tagged \<^verbatim>\<open>hbss\<close>), those with exactly one (\<^verbatim>\<open>hbsb\<close>) and those with two
  (\<^verbatim>\<open>hbbb\<close>), each in input order. Every contact is in exactly one bucket and the three
  lengths add up to the length of the input.
\<close>

theorem stratify_residue_hbonds_partition:
  assumes "\<forall>(f, a1, a2, t) \<in> set hs. has_atom_name a1 \<and> has_atom_name a2"
  shows "\<exists>hbss hbsb hbbb. stratify_residue_hbonds hs = Inr (hbss, hbsb, hbbb)
     \<and> hbss = map (subtype_row ''hbss'') (filter (\<lambda>(f, a1, a2, t). \<not> backbone a1 \<and> \<not> backbone a2) hs)
     \<and> hbsb = map (subtype_row ''hbsb'') (filter (\<lambda>(f, a1, a2, t). backbone a1 \<noteq> backbone a2) hs)
     \<and> hbbb = map (subtype_row ''hbbb'') (filter (\<lambda>(f, a1, a2, t). backbone a1 \<and> backbone a2) hs)
     \<and> (\<forall>h \<in> set hs.
           (subtype_row ''hbss'' h \<in> set hbss \<and> subtype_row ''hbsb'' h \<notin> set hbsb \<and> subtype_row ''hbbb'' h \<notin> set hbbb)
         \<or> (subtype_row ''hbss'' h \<notin> set hbss \<and> subtype_row ''hbsb'' h \<in> set hbsb \<and> subtype_row ''hbbb'' h \<notin> set hbbb)
         \<or> (subtype_row ''hbss'' h \<notin> set hbss \<and> subtype_row ''hbsb'' h \<notin> set hbsb \<and> subtype_row ''hbbb'' h \<in> set hbbb))
     \<and> length hbss + length hbsb + length hbbb = length hs"
proof -
  let ?ss = "map (subtype_row ''hbss'') (filter (\<lambda>(f, a1, a2, t). \<not> backbone a1 \<and> \<not> backbone a2) hs)"
  let ?sb = "map (subtype_row ''hbsb'') (filter (\<lambda>(f, a1, a2, t). backbone a1 \<noteq> backbone a2) hs)"
  let ?bb = "map (subtype_row ''hbbb'') (filter (\<lambda>(f, a1, a2, t). backbone a1 \<and> backbone a2) hs)"
  have run: "stratify_residue_hbonds hs = Inr (?ss, ?sb, ?bb)"
    unfolding stratify_residue_hbonds_def
    using stratify_residue_loop_buckets [OF assms, of "[]" "[]" "[]"] by simp
  have len: "length ?ss + length ?sb + length ?bb = length hs"
    using partition_length3 [of backbone hs] by simp
  have one: "(subtype_row ''hbss'' h \<in> set ?ss \<and> subtype_row ''hbsb'' h \<notin> set ?sb \<and> subtype_row ''hbbb'' h \<notin> set ?bb)
         \<or> (subtype_row ''hbss'' h \<notin> set ?ss \<and> subtype_row ''hbsb'' h \<in> set ?sb \<and> subtype_row ''hbbb'' h \<notin> set ?bb)
         \<or> (subtype_row ''hbss'' h \<notin> set ?ss \<and> subtype_row ''hbsb'' h \<notin> set ?sb \<and> subtype_row ''hbbb'' h \<in> set ?bb)"
    if "h \<in> set hs" for h
  proof -
    obtain f a1 a2 t where h: "h = (f, a1, a2, t)" by (cases h) auto
    with that have ex: "\<exists>t'. (f, a1, a2, t') \<in> set hs" by blast
    show ?thesis
      unfolding h subtype_row_mem using ex by blast
  qed
  from run len one show ?thesis by blast
qed

theorem stratify_residue_hbonds_partition_witness:
  "(\<exists>hbss hbsb hbbb.
      stratify_residue_hbonds
        [(0, ''A:ASP:12:OD1:100'', ''A:ARG:50:NH1:200'', ''hb''),
         (0, ''A:ASP:12:OD1:100'', ''A:ARG:50:N:200'', ''hb''),
         (0, ''A:GLY:7:O:300'', ''A:ARG:50:N:200'', ''hb'')] = Inr (hbss, hbsb, hbbb)
      \<and> length hbss = 1 \<and> length hbsb = 1 \<and> length hbbb = 1)"
  using stratify_residue_hbonds_partition
    [of "[(0, ''A:ASP:12:OD1:100'', ''A:ARG:50:NH1:200'', ''hb''),
          (0, ''A:ASP:12:OD1:100'', ''A:ARG:50:N:200'', ''hb''),
          (0, ''A:GLY:7:O:300'', ''A:ARG:50:N:200'', ''hb'')]"]
  by (simp add: has_atom_name_def backbone_def atom_name_def index_def backbone_atoms_def)

lemma swap_row_subtype_row:
  "swap_row [PyInt f, PyStr tag, PyStr a1, PyStr a2] = [PyInt f, PyStr tag, PyStr a2, PyStr a1]"
  by (simp add: swap_row_def)

lemma atom_name_Inl: "atom_name l = Inl e \<Longrightarrow> e = IndexError"
  by (simp add: atom_name_def index_def split: if_splits)

lemma stratify_residue_loop_swap:
  "stratify_residue_loop (map swap_labels hs) (map swap_row ss, map swap_row sb, map swap_row bb) =
     (case stratify_residue_loop hs (ss, sb, bb) of
        Inl e \<Rightarrow> Inl e
      | Inr (ss', sb', bb') \<Rightarrow> Inr (map swap_row ss', map swap_row sb', map swap_row bb'))"
proof (induction hs arbitrary: ss sb bb)
  case Nil
  then show ?case by simp
next
  case (Cons h hs)
  obtain f a1 a2 t where h: "h = (f, a1, a2, t)" by (cases h) auto
  show ?case
  proof (cases "atom_name a1")
    case (Inl e1)
    then show ?thesis
      by (cases "atom_name a2") (auto simp: h swap_labels_def dest: atom_name_Inl)
  next
    case n1: (Inr n1)
    show ?thesis
    proof (cases "atom_name a2")
      case (Inl e2)
      with n1 show ?thesis by (simp add: h swap_labels_def)
    next
      case n2: (Inr n2)
      show ?thesis
        using n1 n2
          Cons.IH [of "ss @ [[PyInt f, PyStr ''hbss'', PyStr a1, PyStr a2]]" sb bb]
          Cons.IH [of ss "sb @ [[PyInt f, PyStr ''hbsb'', PyStr a1, PyStr a2]]" bb]
          Cons.IH [of ss sb "bb @ [[PyInt f, PyStr ''hbbb'', PyStr a1, PyStr a2]]"]
        by (auto simp: h swap_labels_def swap_row_subtype_row Let_def)
    qed
  qed
qed

text \<open>
  Claim C8. Exchanging the two atom labels of every contact leaves each contact in the bucket
  it was in: the three buckets of the swapped input are the buckets of the original input
  with the two label fields of each row exchanged (and the swapped input fails exactly when
  the original one does).
\<close>

theorem stratify_residue_hbonds_symmetric:
  "stratify_residue_hbonds (map swap_labels hs) =
     (case stratify_residue_hbonds hs of
        Inl e \<Rightarrow> Inl e
      | Inr (hbss, hbsb, hbbb) \<Rightarrow> Inr (map swap_row hbss, map swap_row hbsb, map swap_row hbbb))"
  unfolding stratify_residue_hbonds_def
  using stratify_residue_loop_swap [of hs "[]" "[]" "[]"] by simp

section \<open>Splitting residue-residue from water-mediated hydrogen bonds\<close>

lemma str_in_iff: "str_in s t \<longleftrightarrow> (\<exists>p q. t = p @ s @ q)"
proof (induction t)
  case Nil
  then show ?case by auto
next
  case (Cons c cs)
  have pre: "take (length s) (c # cs) = s \<longleftrightarrow> (\<exists>q. c # cs = s @ q)"
    by (metis append_eq_conv_conj append_take_drop_id)
  have "(\<exists>p q. c # cs = p @ s @ q) \<longleftrightarrow> (\<exists>q. c # cs = s @ q) \<or> (\<exists>p q. cs = p @ s @ q)"
  proof
    assume "\<exists>p q. c # cs = p @ s @ q"
    then obtain p q where pq: "c # cs = p @ s @ q" by blast
    show "(\<exists>q. c # cs = s @ q) \<or> (\<exists>p q. cs = p @ s @ q)"
    proof (cases p)
      case Nil
      with pq show ?thesis by auto
    next
      case (Cons a p')
      with pq show ?thesis by auto
    qed
  next
    assume "(\<exists>q. c # cs = s @ q) \<or> (\<exists>p q. cs = p @ s @ q)"
    then show "\<exists>p q. c # cs = p @ s @ q"
    proof
      assume "\<exists>q. c # cs = s @ q"
      then show ?thesis by (metis append_Nil)
    next
      assume "\<exists>p q. cs = p @ s @ q"
      then show ?thesis by (metis append_Cons)
    qed
  qed
  with pre Cons.IH show ?case by simp
qed

lemma str_split_nonempty: "str_split sep l \<noteq> []"
  by (induction l) (auto split: list.splits)

lemma str_split_first_prefix:
  "str_split sep l = v # vs \<Longrightarrow> \<exists>q. l = v @ q"
proof (induction l arbitrary: v vs)
  case Nil
  then show ?case by simp
next
  case (Cons c cs)
  show ?case
  proof (cases "c = sep")
    case True
    with Cons.prems show ?thesis by simp
  next
    case False
    obtain u us where us: "str_split sep cs = u # us"
      using str_split_nonempty [of sep cs] by (cases "str_split sep cs") auto
    from Cons.IH [OF us] obtain q where "cs = u @ q" by blast
    moreover from False us Cons.prems have "v = c # u" by simp
    ultimately show ?thesis by simp
  qed
qed

lemma str_split_field_substring:
  "w \<in> set (str_split sep l) \<Longrightarrow> \<exists>p q. l = p @ w @ q"
proof (induction l arbitrary: w)
  case Nil
  then show ?case by simp
next
  case (Cons c cs)
  show ?case
  proof (cases "c = sep")
    case True
    with Cons.prems have "w = [] \<or> w \<in> set (str_split sep cs)" by auto
    then show ?thesis
    proof
      assume "w = []"
      then show ?thesis by auto
    next
      assume "w \<in> set (str_split sep cs)"
      from Cons.IH [OF this] obtain p q where "cs = p @ w @ q" by blast
      then have "c # cs = (c # p) @ w @ q" by simp
      then show ?thesis by blast
    qed
  next
    case False
    obtain v vs where vs: "str_split sep cs = v # vs"
      using str_split_nonempty [of sep cs] by (cases "str_split sep cs") auto
    with False Cons.prems have "w = c # v \<or> w \<in> set vs" by auto
    then show ?thesis
    proof
      assume w: "w = c # v"
      from str_split_first_prefix [OF vs] obtain q' where "cs = v @ q'" by blast
      then have "c # cs = [] @ w @ q'" using w by simp
      then show ?thesis by blast
    next
      assume "w \<in> set vs"
      then have "w \<in> set (str_split sep cs)" using vs by simp
      from Cons.IH [OF this] obtain p q where "cs = p @ w @ q" by blast
      then have "c # cs = (c # p) @ w @ q" by simp
      then show ?thesis by blast
    qed
  qed
qed


lemma resname_contains_str_in:
  assumes "resname_contains tok a"
  shows "str_in tok a"
proof -
  from assms have len: "1 < length (str_split CHR '':'' a)"
    and tr: "str_in tok (str_split CHR '':'' a ! 1)"
    by (auto simp: resname_contains_def index_def split: if_splits)
  define r where "r = str_split CHR '':'' a ! 1"
  have r: "r \<in> set (str_split CHR '':'' a)"
    unfolding r_def using len by (rule nth_mem)
  note tr = tr [folded r_def]
  from str_split_field_substring [OF r] obtain p q where "a = p @ r @ q" by blast
  moreover from tr obtain p' q' where "r = p' @ tok @ q'" unfolding str_in_iff by blast
  ultimately have "a = (p @ p') @ tok @ (q' @ q)" by simp
  then show ?thesis unfolding str_in_iff by blast
qed

lemma residue_vs_water_loop_filter:
  "residue_vs_water_loop hs tok (rs, ws) =
     (rs @ filter (\<lambda>(f, a1, a2, t). \<not> (str_in tok a1 \<or> str_in tok a2)) hs,
      ws @ filter (\<lambda>(f, a1, a2, t). str_in tok a1 \<or> str_in tok a2) hs)"
  by (induction hs arbitrary: rs ws) auto

text \<open>
  Claim C2, as amended. A contact is routed to the water path if and only if the solvent
  token is a substring of at least one of the two whole atom labels (any field, separators
  included); all other contacts go to residue stratification, and both outputs keep the input
  order. A token that is a substring of the residue-name field of a label is a substring of
  the label, so every contact that matches on a residue-name field is routed to the water path.
\<close>

theorem residue_vs_water_hbonds_whole_label:
  "residue_vs_water_hbonds hs tok =
     (filter (\<lambda>(f, a1, a2, t). \<not> (str_in tok a1 \<or> str_in tok a2)) hs,
      filter (\<lambda>(f, a1, a2, t). str_in tok a1 \<or> str_in tok a2) hs)
   \<and> (\<forall>a. str_in tok a \<longleftrightarrow> (\<exists>p q. a = p @ tok @ q))
   \<and> (\<forall>a. resname_contains tok a \<longrightarrow> str_in tok a)"
  unfolding residue_vs_water_hbonds_def residue_vs_water_loop_filter
  using str_in_iff resname_contains_str_in by auto

theorem residue_vs_water_hbonds_whole_label_witness:
  "resname_contains ''TIP3'' ''W:TIP3:8719:OH2:29279''
   \<and> str_in ''TIP3'' ''W:TIP3:8719:OH2:29279''
   \<and> residue_vs_water_hbonds
        [(0, ''A:ASP:12:OD1:100'', ''A:ARG:50:NH1:200'', ''hb''),
         (0, ''A:PHE:159:N:52441'', ''W:TIP3:8719:OH2:29279'', ''hb'')] ''TIP3''
      = ([(0, ''A:ASP:12:OD1:100'', ''A:ARG:50:NH1:200'', ''hb'')],
         [(0, ''A:PHE:159:N:52441'', ''W:TIP3:8719:OH2:29279'', ''hb'')])"
proof -
  have r: "resname_contains ''TIP3'' ''W:TIP3:8719:OH2:29279''"
    by (simp add: resname_contains_def index_def)
  have run: "residue_vs_water_hbonds
        [(0, ''A:ASP:12:OD1:100'', ''A:ARG:50:NH1:200'', ''hb''),
         (0, ''A:PHE:159:N:52441'', ''W:TIP3:8719:OH2:29279'', ''hb'')] ''TIP3''
      = ([(0, ''A:ASP:12:OD1:100'', ''A:ARG:50:NH1:200'', ''hb'')],
         [(0, ''A:PHE:159:N:52441'', ''W:TIP3:8719:OH2:29279'', ''hb'')])"
    by (simp add: residue_vs_water_hbonds_def)
  from residue_vs_water_hbonds_whole_label
         [of "[(0, ''A:ASP:12:OD1:100'', ''A:ARG:50:NH1:200'', ''hb''),
               (0, ''A:PHE:159:N:52441'', ''W:TIP3:8719:OH2:29279'', ''hb'')]" "''TIP3''"]
  have imp: "\<forall>a. resname_contains ''TIP3'' a \<longrightarrow> str_in ''TIP3'' a"
    by blast
  from imp r have "str_in ''TIP3'' ''W:TIP3:8719:OH2:29279''" by blast
  with r run show ?thesis by blast
qed

text \<open>
  Claim C2 as stated fails: with the solvent token \<^verbatim>\<open>W\<close>, a contact between two atoms of
  residues \<^verbatim>\<open>GLY\<close> and \<^verbatim>\<open>ASP\<close> is routed to the water path because the token occurs in
  the chain field of the first label, although it occurs in neither residue-name field.
\<close>

theorem residue_vs_water_hbonds_resname_counterexample:
  "residue_vs_water_hbonds [(0, ''W:GLY:7:N:300'', ''A:ASP:12:OD1:100'', ''hb'')] ''W''
     = ([], [(0, ''W:GLY:7:N:300'', ''A:ASP:12:OD1:100'', ''hb'')])
   \<and> \<not> resname_contains ''W'' ''W:GLY:7:N:300''
   \<and> \<not> resname_contains ''W'' ''A:ASP:12:OD1:100''"
  by (simp add: residue_vs_water_hbonds_def resname_contains_def index_def)

section \<open>The water-to-residues map\<close>

lemma set_set_add: "set (set_add x xs) = insert x (set xs)"
  by (auto simp: set_add_def)

lemma distinct_set_add: "distinct xs \<Longrightarrow> distinct (set_add x xs)"
  by (simp add: set_add_def)

lemma map_of_add_residue:
  "map_of (add_residue w p m) w' =
     (if w' = w then Some (set_add p (case map_of m w of None \<Rightarrow> [] | Some ps \<Rightarrow> ps))
      else map_of m w')"
  by (simp add: add_residue_def update_conv' split: option.splits)

lemma partners_add_residue:
  "partners (add_residue w p m) w' = (if w' = w then insert p (partners m w) else partners m w')"
  by (simp add: partners_def map_of_add_residue set_set_add split: option.splits)

lemma set_add_nonempty: "set_add x xs \<noteq> []"
  by (auto simp: set_add_def)

lemma distinct_keys_add_residue:
  "distinct (map fst m) \<Longrightarrow> distinct (map fst (add_residue w p m))"
  by (simp add: add_residue_def distinct_update split: option.splits)

lemma water_map_ok_add_residue:
  assumes "water_map_ok m"
  shows "water_map_ok (add_residue w p m)"
proof -
  from assms have keys: "distinct (map fst m)"
    and vals: "\<And>w ps. map_of m w = Some ps \<Longrightarrow> ps \<noteq> [] \<and> distinct ps"
    by (auto simp: water_map_ok_def)
  have "ps \<noteq> [] \<and> distinct ps" if look: "map_of (add_residue w p m) w' = Some ps" for w' ps
  proof (cases "w' = w")
    case False
    with look have "map_of m w' = Some ps" by (simp add: map_of_add_residue)
    then show ?thesis by (rule vals)
  next
    case True
    with look have ps: "ps = set_add p (case map_of m w of None \<Rightarrow> [] | Some ps \<Rightarrow> ps)"
      by (simp add: map_of_add_residue)
    have "distinct (case map_of m w of None \<Rightarrow> [] | Some ps \<Rightarrow> ps)"
      using vals [of w] by (cases "map_of m w") simp_all
    then show ?thesis
      unfolding ps by (simp add: set_add_nonempty distinct_set_add)
  qed
  with distinct_keys_add_residue [OF keys] show ?thesis
    unfolding water_map_ok_def by blast
qed

lemma water_map_loop_Inr:
  assumes "\<forall>h \<in> set hs. \<not> no_solvent tok h"
  shows "water_map_loop hs tok (f0, m0, sb0) =
           Inr (if hs = [] then f0 else fst (last hs),
                fold (\<lambda>(w, p). add_residue w p) (water_protein_pairs tok hs) m0,
                sb0 @ solvent_pairs tok hs)"
  using assms
proof (induction hs arbitrary: f0 m0 sb0)
  case Nil
  then show ?case by simp
next
  case (Cons h hs)
  obtain f a1 a2 t where h: "h = (f, a1, a2, t)" by (cases h) auto
  from Cons.prems have rest: "\<forall>h \<in> set hs. \<not> no_solvent tok h" by simp
  from Cons.prems h have some: "str_in tok a1 \<or> str_in tok a2" by (simp add: no_solvent_def)
  show ?case
    unfolding h using some by (auto simp: Cons.IH [OF rest])
qed

lemma water_map_loop_Inl:
  assumes "\<exists>h \<in> set hs. no_solvent tok h"
  shows "water_map_loop hs tok st = Inl ValueError"
  using assms
proof (induction hs arbitrary: st)
  case Nil
  then show ?case by simp
next
  case (Cons h hs)
  obtain f a1 a2 t where h: "h = (f, a1, a2, t)" by (cases h) auto
  obtain f0 m0 sb0 where st: "st = (f0, m0, sb0)" by (cases st) auto
  show ?case
  proof (cases "no_solvent tok h")
    case True
    then show ?thesis unfolding h st by (simp add: no_solvent_def)
  next
    case False
    with Cons.prems have "\<exists>h \<in> set hs. no_solvent tok h" by auto
    from Cons.IH [OF this] show ?thesis unfolding h st by simp
  qed
qed

lemma partners_fold_add_residue:
  "partners (fold (\<lambda>(w, p). add_residue w p) wps m) w = partners m w \<union> {p. (w, p) \<in> set wps}"
  by (induction wps arbitrary: m) (auto simp: partners_add_residue split: if_splits)

lemma water_map_ok_fold:
  "water_map_ok m \<Longrightarrow> water_map_ok (fold (\<lambda>(w, p). add_residue w p) wps m)"
  by (induction wps arbitrary: m) (auto simp: water_map_ok_add_residue)

lemma water_map_ok_empty: "water_map_ok []"
  by (simp add: water_map_ok_def)

lemma partners_empty: "partners [] w = {}"
  by (simp add: partners_def)

lemma water_map_ok_key:
  assumes "water_map_ok m"
  shows "(map_of m w \<noteq> None) = (partners m w \<noteq> {})"
proof (cases "map_of m w")
  case None
  then show ?thesis by (simp add: partners_def)
next
  case (Some ps)
  with assms have "ps \<noteq> []" unfolding water_map_ok_def by blast
  with Some show ?thesis by (simp add: partners_def)
qed

lemma water_protein_pairs_iff:
  "(w, p) \<in> set (water_protein_pairs tok hs) \<longleftrightarrow>
     str_in tok w \<and> \<not> str_in tok p \<and> (\<exists>f t. (f, w, p, t) \<in> set hs \<or> (f, p, w, t) \<in> set hs)"
proof (induction hs)
  case Nil
  then show ?case by simp
next
  case (Cons h hs)
  obtain f a1 a2 t where h: "h = (f, a1, a2, t)" by (cases h) auto
  have "(\<exists>f' t'. (f', w, p, t') \<in> set (h # hs) \<or> (f', p, w, t') \<in> set (h # hs)) \<longleftrightarrow>
        (a1 = w \<and> a2 = p) \<or> (a1 = p \<and> a2 = w) \<or> (\<exists>f' t'. (f', w, p, t') \<in> set hs \<or> (f', p, w, t') \<in> set hs)"
    unfolding h by auto
  then show ?case
    unfolding h using Cons.IH by (simp split: if_splits) blast
qed

lemma solvent_pairs_iff:
  "(a, b) \<in> set (solvent_pairs tok hs) \<longleftrightarrow>
     str_in tok a \<and> str_in tok b \<and> (\<exists>f t. (f, a, b, t) \<in> set hs)"
  by (induction hs) (auto split: if_splits)

section \<open>Removal of duplicate solvent bridges\<close>

lemma set_dedup_loop_subset: "set (dedup_loop xs acc) \<subseteq> set acc \<union> set xs"
  by (induction xs acc rule: dedup_loop.induct) (auto simp: set_set_add split: if_splits)

lemma distinct_dedup_loop: "distinct acc \<Longrightarrow> distinct (dedup_loop xs acc)"
  by (induction xs acc rule: dedup_loop.induct) (auto simp: distinct_set_add)

lemma dedup_loop_mono: "set acc \<subseteq> set (dedup_loop xs acc)"
  by (induction xs acc rule: dedup_loop.induct) (auto simp: set_set_add split: if_splits)

lemma dedup_loop_first:
  "(a, b) \<in> set (dedup_loop xs acc) \<longleftrightarrow>
     (a, b) \<in> set acc \<or>
     ((b, a) \<notin> set acc \<and>
      (\<exists>ys zs. xs = ys @ (a, b) # zs \<and> (a, b) \<notin> set ys \<and> (b, a) \<notin> set ys))"
proof (induction xs acc rule: dedup_loop.induct)
  case (1 acc)
  then show ?case by simp
next
  case (2 w1 w2 rest acc)
  let ?first = "\<lambda>xs. \<exists>ys zs. xs = ys @ (a, b) # zs \<and> (a, b) \<notin> set ys \<and> (b, a) \<notin> set ys"
  have split: "?first ((w1, w2) # rest) \<longleftrightarrow>
      (w1, w2) = (a, b) \<or> ((w1, w2) \<noteq> (a, b) \<and> (w1, w2) \<noteq> (b, a) \<and> ?first rest)"
  proof
    assume "?first ((w1, w2) # rest)"
    then obtain ys zs where e: "(w1, w2) # rest = ys @ (a, b) # zs"
      and n: "(a, b) \<notin> set ys" "(b, a) \<notin> set ys" by blast
    show "(w1, w2) = (a, b) \<or> ((w1, w2) \<noteq> (a, b) \<and> (w1, w2) \<noteq> (b, a) \<and> ?first rest)"
    proof (cases ys)
      case Nil
      with e show ?thesis by simp
    next
      case (Cons y ys')
      with e n have "y = (w1, w2)" "rest = ys' @ (a, b) # zs" "(a, b) \<notin> set ys'" "(b, a) \<notin> set ys'"
        "y \<noteq> (a, b)" "y \<noteq> (b, a)" by auto
      then show ?thesis by blast
    qed
  next
    assume r: "(w1, w2) = (a, b) \<or> ((w1, w2) \<noteq> (a, b) \<and> (w1, w2) \<noteq> (b, a) \<and> ?first rest)"
    show "?first ((w1, w2) # rest)"
    proof (cases "(w1, w2) = (a, b)")
      case True
      then have "(w1, w2) # rest = [] @ (a, b) # rest" by simp
      moreover have "(a, b) \<notin> set []" "(b, a) \<notin> set []" by simp_all
      ultimately show ?thesis by blast
    next
      case False
      with r obtain ys zs where "rest = ys @ (a, b) # zs" "(a, b) \<notin> set ys" "(b, a) \<notin> set ys"
        and ne: "(w1, w2) \<noteq> (a, b)" "(w1, w2) \<noteq> (b, a)" by blast
      then have "(w1, w2) # rest = ((w1, w2) # ys) @ (a, b) # zs
          \<and> (a, b) \<notin> set ((w1, w2) # ys) \<and> (b, a) \<notin> set ((w1, w2) # ys)" by auto
      then show ?thesis by blast
    qed
  qed
  define F where "F = ?first rest"
  define G where "G = ?first ((w1, w2) # rest)"
  have G: "G \<longleftrightarrow> (w1, w2) = (a, b) \<or> ((w1, w2) \<noteq> (a, b) \<and> (w1, w2) \<noteq> (b, a) \<and> F)"
    unfolding F_def G_def by (rule split)
  show ?case
  proof (cases "(w1, w2) \<notin> set acc \<and> (w2, w1) \<notin> set acc")
    case True
    then have run: "dedup_loop ((w1, w2) # rest) acc = dedup_loop rest (set_add (w1, w2) acc)"
      by simp
    from "2.IH"(1) [OF True]
    have IH: "(a, b) \<in> set (dedup_loop rest (set_add (w1, w2) acc)) \<longleftrightarrow>
        (a, b) \<in> insert (w1, w2) (set acc) \<or> ((b, a) \<notin> insert (w1, w2) (set acc) \<and> F)"
      unfolding F_def set_set_add .
    have "(a, b) \<in> set (dedup_loop ((w1, w2) # rest) acc) \<longleftrightarrow> (a, b) \<in> set acc \<or> ((b, a) \<notin> set acc \<and> G)"
      unfolding run IH G using True by auto
    then show ?thesis unfolding G_def .
  next
    case False
    then have run: "dedup_loop ((w1, w2) # rest) acc = dedup_loop rest acc"
      by auto
    from "2.IH"(2) [OF False]
    have IH: "(a, b) \<in> set (dedup_loop rest acc) \<longleftrightarrow>
        (a, b) \<in> set acc \<or> ((b, a) \<notin> set acc \<and> F)"
      unfolding F_def .
    have "(a, b) \<in> set (dedup_loop ((w1, w2) # rest) acc) \<longleftrightarrow> (a, b) \<in> set acc \<or> ((b, a) \<notin> set acc \<and> G)"
      unfolding run IH G using False by auto
    then show ?thesis unfolding G_def .
  qed
qed

lemma dedup_loop_covers:
  "(a, b) \<in> set xs \<Longrightarrow> (a, b) \<in> set (dedup_loop xs acc) \<or> (b, a) \<in> set (dedup_loop xs acc)"
proof (induction xs acc rule: dedup_loop.induct)
  case (1 acc)
  then show ?case by simp
next
  case (2 w1 w2 rest acc)
  show ?case
  proof (cases "(a, b) = (w1, w2)")
    case False
    with "2.prems" have "(a, b) \<in> set rest" by auto
    with "2.IH" show ?thesis by (cases "(w1, w2) \<notin> set acc \<and> (w2, w1) \<notin> set acc") auto
  next
    case True
    show ?thesis
    proof (cases "(w1, w2) \<notin> set acc \<and> (w2, w1) \<notin> set acc")
      case t: True
      have "(w1, w2) \<in> set (set_add (w1, w2) acc)" by (simp add: set_set_add)
      then have "(w1, w2) \<in> set (dedup_loop rest (set_add (w1, w2) acc))"
        using dedup_loop_mono by blast
      with t True show ?thesis by simp
    next
      case f: False
      then have "(w1, w2) \<in> set acc \<or> (w2, w1) \<in> set acc" by blast
      then have "(w1, w2) \<in> set (dedup_loop rest acc) \<or> (w2, w1) \<in> set (dedup_loop rest acc)"
        using dedup_loop_mono by blast
      with f True show ?thesis by auto
    qed
  qed
qed

lemma dedup_loop_one_orientation:
  assumes "\<And>a b. (a, b) \<in> set acc \<Longrightarrow> (b, a) \<in> set acc \<Longrightarrow> a = b"
    and "(a, b) \<in> set (dedup_loop xs acc)" and "(b, a) \<in> set (dedup_loop xs acc)"
  shows "a = b"
  using assms
proof (induction xs acc rule: dedup_loop.induct)
  case (1 acc)
  then show ?case by simp
next
  case (2 w1 w2 rest acc)
  show ?case
  proof (cases "(w1, w2) \<notin> set acc \<and> (w2, w1) \<notin> set acc")
    case True
    have inv: "c = d" if "(c, d) \<in> set (set_add (w1, w2) acc)" "(d, c) \<in> set (set_add (w1, w2) acc)" for c d
      using that True "2.prems"(1) [of c d] by (auto simp: set_set_add)
    from "2.prems"(2,3) True have
      "(a, b) \<in> set (dedup_loop rest (set_add (w1, w2) acc))"
      "(b, a) \<in> set (dedup_loop rest (set_add (w1, w2) acc))" by simp_all
    with "2.IH"(1) [OF True inv] show ?thesis by blast
  next
    case False
    from "2.prems"(2,3) False have
      "(a, b) \<in> set (dedup_loop rest acc)" "(b, a) \<in> set (dedup_loop rest acc)" by auto
    with "2.IH"(2) [OF False "2.prems"(1)] show ?thesis by blast
  qed
qed

section \<open>Result of the water-to-residues map builder\<close>

lemma calc_water_to_residues_map_eq:
  "calc_water_to_residues_map wh tok =
     (if \<exists>h \<in> set wh. no_solvent tok h then Inl ValueError
      else Inr (if wh = [] then 0 else fst (last wh),
                fold (\<lambda>(w, p). add_residue w p) (water_protein_pairs tok wh) [],
                sort (dedup_loop (solvent_pairs tok wh) [])))"
proof (cases "\<exists>h \<in> set wh. no_solvent tok h")
  case True
  then show ?thesis
    unfolding calc_water_to_residues_map_def by (simp add: water_map_loop_Inl)
next
  case False
  then have "\<forall>h \<in> set wh. \<not> no_solvent tok h" by blast
  from water_map_loop_Inr [OF this, of 0 "[]" "[]"] False show ?thesis
    unfolding calc_water_to_residues_map_def by simp
qed

lemma calc_water_to_residues_map_partners:
  assumes "calc_water_to_residues_map wh tok = Inr (f, m, sb)"
  shows "p \<in> partners m w \<longleftrightarrow>
     str_in tok w \<and> \<not> str_in tok p \<and> (\<exists>f t. (f, w, p, t) \<in> set wh \<or> (f, p, w, t) \<in> set wh)"
proof -
  from assms have m: "m = fold (\<lambda>(w, p). add_residue w p) (water_protein_pairs tok wh) []"
    unfolding calc_water_to_residues_map_eq by (simp split: if_splits)
  show ?thesis
    unfolding m partners_fold_add_residue partners_empty
    using water_protein_pairs_iff [of w p tok wh] by simp
qed

lemma calc_water_to_residues_map_ok:
  assumes "calc_water_to_residues_map wh tok = Inr (f, m, sb)"
  shows "water_map_ok m"
proof -
  from assms have m: "m = fold (\<lambda>(w, p). add_residue w p) (water_protein_pairs tok wh) []"
    unfolding calc_water_to_residues_map_eq by (simp split: if_splits)
  show ?thesis unfolding m by (rule water_map_ok_fold [OF water_map_ok_empty])
qed

lemma calc_water_to_residues_map_bridges:
  assumes "calc_water_to_residues_map wh tok = Inr (f, m, sb)"
  shows "sb = sort (dedup_loop (solvent_pairs tok wh) [])"
  using assms unfolding calc_water_to_residues_map_eq by (simp split: if_splits)


text \<open>
  Claim C9. \<^const>\<open>calc_water_to_residues_map\<close> raises (the \<^verbatim>\<open>ValueError\<close> of the source)
  exactly when some contact of the batch has the solvent token in neither label; otherwise it
  returns. In the returned dictionary, a protein atom is stored under a water exactly when
  some contact of the batch joins the two with the token in the water label only, so contacts
  with two solvent sides add nothing to it, and a key exists only with a partner. Every
  returned solvent bridge is the label pair of a contact with two solvent sides, and each such
  contact is represented by a bridge in one of the two orientations.
\<close>

theorem calc_water_to_residues_map_raises_iff:
  "(if \<exists>h \<in> set wh. no_solvent tok h
    then calc_water_to_residues_map wh tok = Inl ValueError
    else \<exists>f m sb. calc_water_to_residues_map wh tok = Inr (f, m, sb)
       \<and> (\<forall>w p. p \<in> partners m w \<longleftrightarrow>
              str_in tok w \<and> \<not> str_in tok p \<and>
              (\<exists>f t. (f, w, p, t) \<in> set wh \<or> (f, p, w, t) \<in> set wh))
       \<and> (\<forall>w. (map_of m w \<noteq> None) = (partners m w \<noteq> {}))
       \<and> (\<forall>a b. (a, b) \<in> set sb \<longrightarrow>
              str_in tok a \<and> str_in tok b \<and> (\<exists>f t. (f, a, b, t) \<in> set wh))
       \<and> (\<forall>f a b t. (f, a, b, t) \<in> set wh \<and> str_in tok a \<and> str_in tok b \<longrightarrow>
              (a, b) \<in> set sb \<or> (b, a) \<in> set sb))"
proof (cases "\<exists>h \<in> set wh. no_solvent tok h")
  case True
  then show ?thesis by (simp add: calc_water_to_residues_map_eq)
next
  case False
  then obtain f m sb where run: "calc_water_to_residues_map wh tok = Inr (f, m, sb)"
    by (simp add: calc_water_to_residues_map_eq)
  note sb = calc_water_to_residues_map_bridges [OF run]
  have p: "\<forall>w p. p \<in> partners m w \<longleftrightarrow>
              str_in tok w \<and> \<not> str_in tok p \<and>
              (\<exists>f t. (f, w, p, t) \<in> set wh \<or> (f, p, w, t) \<in> set wh)"
    using calc_water_to_residues_map_partners [OF run] by blast
  have k: "\<forall>w. (map_of m w \<noteq> None) = (partners m w \<noteq> {})"
    using water_map_ok_key [OF calc_water_to_residues_map_ok [OF run]] by blast
  have s1: "\<forall>a b. (a, b) \<in> set sb \<longrightarrow>
              str_in tok a \<and> str_in tok b \<and> (\<exists>f t. (f, a, b, t) \<in> set wh)"
  proof (intro allI impI)
    fix a b assume "(a, b) \<in> set sb"
    then have "(a, b) \<in> set (dedup_loop (solvent_pairs tok wh) [])" unfolding sb by simp
    with set_dedup_loop_subset [of "solvent_pairs tok wh" "[]"]
    have "(a, b) \<in> set (solvent_pairs tok wh)" by auto
    then show "str_in tok a \<and> str_in tok b \<and> (\<exists>f t. (f, a, b, t) \<in> set wh)"
      unfolding solvent_pairs_iff .
  qed
  have s2: "\<forall>f a b t. (f, a, b, t) \<in> set wh \<and> str_in tok a \<and> str_in tok b \<longrightarrow>
              (a, b) \<in> set sb \<or> (b, a) \<in> set sb"
  proof (intro allI impI)
    fix f a b t assume "(f, a, b, t) \<in> set wh \<and> str_in tok a \<and> str_in tok b"
    then have "(a, b) \<in> set (solvent_pairs tok wh)" unfolding solvent_pairs_iff by blast
    from dedup_loop_covers [OF this, of "[]"] show "(a, b) \<in> set sb \<or> (b, a) \<in> set sb"
      unfolding sb by simp
  qed
  from False run p k s1 s2 show ?thesis by auto
qed

theorem calc_water_to_residues_map_raises_iff_witness:
  "calc_water_to_residues_map
     [(3, ''W:TIP3:1:OH2:10'', ''A:ASP:12:OD1:100'', ''hb''),
      (3, ''A:ARG:50:NH1:200'', ''A:ASP:12:OD1:100'', ''hb'')] ''TIP3'' = Inl ValueError
   \<and> (\<exists>f m sb. calc_water_to_residues_map
         [(3, ''W:TIP3:1:OH2:10'', ''A:ASP:12:OD1:100'', ''hb''),
          (3, ''W:TIP3:2:OH2:20'', ''W:TIP3:1:OH2:10'', ''hb'')] ''TIP3'' = Inr (f, m, sb)
        \<and> (map_of m ''W:TIP3:1:OH2:10'' \<noteq> None) = (partners m ''W:TIP3:1:OH2:10'' \<noteq> {}))"
proof -
  let ?b1 = "[(3, ''W:TIP3:1:OH2:10'', ''A:ASP:12:OD1:100'', ''hb''),
              (3, ''A:ARG:50:NH1:200'', ''A:ASP:12:OD1:100'', ''hb'')] :: hbond list"
  let ?b2 = "[(3, ''W:TIP3:1:OH2:10'', ''A:ASP:12:OD1:100'', ''hb''),
              (3, ''W:TIP3:2:OH2:20'', ''W:TIP3:1:OH2:10'', ''hb'')] :: hbond list"
  have s1: "\<exists>h \<in> set ?b1. no_solvent ''TIP3'' h"
    by (simp add: no_solvent_def)
  have s2: "\<not> (\<exists>h \<in> set ?b2. no_solvent ''TIP3'' h)"
    by (simp add: no_solvent_def)
  from calc_water_to_residues_map_raises_iff [of ?b1 "''TIP3''"] s1
  have a: "calc_water_to_residues_map ?b1 ''TIP3'' = Inl ValueError"
    by (simp only: if_True)
  from calc_water_to_residues_map_raises_iff [of ?b2 "''TIP3''"] s2
  obtain f m sb where "calc_water_to_residues_map ?b2 ''TIP3'' = Inr (f, m, sb)"
    and "\<forall>w. (map_of m w \<noteq> None) = (partners m w \<noteq> {})"
    by (simp only: if_False) blast
  with a show ?thesis by blast
qed

lemma length_filter_single:
  assumes "distinct xs" and "x \<in> set xs" and "\<And>y. y \<in> set xs \<Longrightarrow> P y \<longleftrightarrow> y = x"
  shows "length (filter P xs) = 1"
proof -
  have "filter P xs = filter (\<lambda>y. y = x) xs"
    using assms(3) by (intro filter_cong) auto
  also have "filter (\<lambda>y. y = x) xs = filter ((=) x) xs"
    by (intro filter_cong) auto
  also have "length \<dots> = count_list xs x"
    by (induction xs) auto
  also have "\<dots> = 1"
    using assms(1,2) by (induction xs) auto
  finally show ?thesis .
qed

text \<open>
  Claim C4, as amended. The returned list of solvent bridges is sorted (as pairs) and free of
  duplicates; for every water-water contact of the batch it has exactly one entry for the
  unordered pair of labels, whether or not the other orientation occurs too; and that entry
  is the orientation that occurs first in the batch. Nothing orders the two labels inside
  a pair.
\<close>

theorem solvent_bridges_dedup:
  assumes "calc_water_to_residues_map wh tok = Inr (f, m, sb)"
  shows "sorted sb \<and> distinct sb
    \<and> (\<forall>a b. (a, b) \<in> set (solvent_pairs tok wh) \<longrightarrow>
          length (filter (\<lambda>e. e = (a, b) \<or> e = (b, a)) sb) = 1)
    \<and> (\<forall>a b. (a, b) \<in> set sb \<longleftrightarrow>
          (\<exists>ys zs. solvent_pairs tok wh = ys @ (a, b) # zs \<and> (a, b) \<notin> set ys \<and> (b, a) \<notin> set ys))"
proof -
  let ?d = "dedup_loop (solvent_pairs tok wh) []"
  note sb = calc_water_to_residues_map_bridges [OF assms]
  have dist: "distinct sb" unfolding sb using distinct_dedup_loop [of "[]"] by simp
  have srt: "sorted sb" unfolding sb by simp
  have set_sb: "set sb = set ?d" unfolding sb by simp
  have one: "length (filter (\<lambda>e. e = (a, b) \<or> e = (b, a)) sb) = 1"
    if ab: "(a, b) \<in> set (solvent_pairs tok wh)" for a b
  proof -
    from dedup_loop_covers [OF ab, of "[]"] have cov: "(a, b) \<in> set sb \<or> (b, a) \<in> set sb"
      unfolding set_sb .
    have asym: "a = b" if "(a, b) \<in> set sb" "(b, a) \<in> set sb"
      using dedup_loop_one_orientation [of "[]" a b "solvent_pairs tok wh"] that
      unfolding set_sb by simp
    show ?thesis
    proof (cases "(a, b) \<in> set sb")
      case True
      have "(e = (a, b) \<or> e = (b, a)) \<longleftrightarrow> e = (a, b)" if "e \<in> set sb" for e
        using that True asym by blast
      with dist True show ?thesis by (rule length_filter_single)
    next
      case False
      with cov have ba: "(b, a) \<in> set sb" by blast
      have "(e = (a, b) \<or> e = (b, a)) \<longleftrightarrow> e = (b, a)" if "e \<in> set sb" for e
        using that False by blast
      with dist ba show ?thesis by (rule length_filter_single)
    qed
  qed
  have first: "(a, b) \<in> set sb \<longleftrightarrow>
          (\<exists>ys zs. solvent_pairs tok wh = ys @ (a, b) # zs \<and> (a, b) \<notin> set ys \<and> (b, a) \<notin> set ys)"
    for a b
    unfolding set_sb dedup_loop_first by simp
  from srt dist one first show ?thesis by blast
qed

theorem solvent_bridges_dedup_witness:
  "calc_water_to_residues_map
     [(0, ''W:TIP3:2:OH2:20'', ''W:TIP3:1:OH2:10'', ''hb''),
      (0, ''W:TIP3:1:OH2:10'', ''W:TIP3:2:OH2:20'', ''hb'')] ''TIP3''
     = Inr (0, [], [(''W:TIP3:2:OH2:20'', ''W:TIP3:1:OH2:10'')])
   \<and> length (filter (\<lambda>e. e = (''W:TIP3:1:OH2:10'', ''W:TIP3:2:OH2:20'') \<or>
                          e = (''W:TIP3:2:OH2:20'', ''W:TIP3:1:OH2:10''))
               [(''W:TIP3:2:OH2:20'', ''W:TIP3:1:OH2:10'')]) = 1"
proof -
  have run: "calc_water_to_residues_map
     [(0, ''W:TIP3:2:OH2:20'', ''W:TIP3:1:OH2:10'', ''hb''),
      (0, ''W:TIP3:1:OH2:10'', ''W:TIP3:2:OH2:20'', ''hb'')] ''TIP3''
     = Inr (0, [], [(''W:TIP3:2:OH2:20'', ''W:TIP3:1:OH2:10'')])"
    by (simp add: calc_water_to_residues_map_def set_add_def)
  from solvent_bridges_dedup [OF run] show ?thesis using run by simp
qed

text \<open>
  Claim C4 as stated fails: a batch with both orientations of one water-water bond, the
  larger label first, returns the pair with the larger label first.
\<close>

theorem solvent_bridges_order_counterexample:
  "calc_water_to_residues_map
     [(0, ''W:TIP3:2:OH2:20'', ''W:TIP3:1:OH2:10'', ''hb''),
      (0, ''W:TIP3:1:OH2:10'', ''W:TIP3:2:OH2:20'', ''hb'')] ''TIP3''
     = Inr (0, [], [(''W:TIP3:2:OH2:20'', ''W:TIP3:1:OH2:10'')])
   \<and> \<not> (''W:TIP3:2:OH2:20'' \<le> ''W:TIP3:1:OH2:10'')"
  by (simp add: calc_water_to_residues_map_def set_add_def)

section \<open>Direct water bridges\<close>

lemma length_combinations2: "length (combinations2 xs) = length xs choose 2"
  by (induction xs) (simp_all add: numeral_2_eq_2)

lemma set_combinations2_subset:
  "(x, y) \<in> set (combinations2 xs) \<Longrightarrow> x \<in> set xs \<and> y \<in> set xs"
  by (induction xs) auto

lemma combinations2_distinct_neq:
  "distinct xs \<Longrightarrow> (x, y) \<in> set (combinations2 xs) \<Longrightarrow> x \<noteq> y"
  by (induction xs) (auto dest: set_combinations2_subset)

lemma distinct_combinations2: "distinct xs \<Longrightarrow> distinct (combinations2 xs)"
proof (induction xs)
  case Nil
  then show ?case by simp
next
  case (Cons x xs)
  have "distinct (map (Pair x) xs)"
    using Cons.prems by (simp add: distinct_map inj_on_def)
  moreover have "set (map (Pair x) xs) \<inter> set (combinations2 xs) = {}"
    using Cons.prems by (auto dest: set_combinations2_subset)
  ultimately show ?case using Cons by simp
qed

lemma combinations2_sorted_less:
  "sorted xs \<Longrightarrow> distinct xs \<Longrightarrow> (x, y) \<in> set (combinations2 xs) \<longleftrightarrow> x \<in> set xs \<and> y \<in> set xs \<and> x < y"
proof (induction xs)
  case Nil
  then show ?case by simp
next
  case (Cons z zs)
  then have IH: "(x, y) \<in> set (combinations2 zs) \<longleftrightarrow> x \<in> set zs \<and> y \<in> set zs \<and> x < y"
    by simp
  from Cons.prems have lt: "\<And>u. u \<in> set zs \<Longrightarrow> z < u"
    by (metis distinct.simps(2) order_le_imp_less_or_eq sorted_simps(2))
  have "(x, y) \<in> set (combinations2 (z # zs)) \<longleftrightarrow>
          (x = z \<and> y \<in> set zs) \<or> (x, y) \<in> set (combinations2 zs)"
    by auto
  also have "\<dots> \<longleftrightarrow> (x = z \<and> y \<in> set zs) \<or> (x \<in> set zs \<and> y \<in> set zs \<and> x < y)"
    unfolding IH ..
  also have "\<dots> \<longleftrightarrow> x \<in> set (z # zs) \<and> y \<in> set (z # zs) \<and> x < y"
    using lt by (auto dest: less_asym)
  finally show ?case .
qed

lemma fold_set_add_if_set:
  "set (fold (\<lambda>x acc. if P x then set_add (g x) acc else acc) xs acc)
   = set acc \<union> g ` {x \<in> set xs. P x}"
  by (induction xs arbitrary: acc) (auto simp: set_set_add)

lemma fold_set_add_if_distinct:
  "distinct acc \<Longrightarrow> distinct (fold (\<lambda>x acc. if P x then set_add (g x) acc else acc) xs acc)"
  by (induction xs arbitrary: acc) (auto simp: distinct_set_add)

lemma wb_step_eq:
  "(\<lambda>(r1, r2) acc. if r1 \<noteq> r2 then set_add (f, ''wb'', r1, r2, w) acc else acc)
   = (\<lambda>x acc. if (case x of (r1, r2) \<Rightarrow> r1 \<noteq> r2)
               then set_add ((\<lambda>(r1, r2). (f, ''wb'', r1, r2, w)) x) acc else acc)"
  by (auto simp: fun_eq_iff)

lemma fold_wb_set:
  "set (fold (\<lambda>(r1, r2) acc. if r1 \<noteq> r2 then set_add (f, ''wb'', r1, r2, w) acc else acc) ps acc)
   = set acc \<union> (\<lambda>(r1, r2). (f, ''wb'', r1, r2, w)) ` {(r1, r2). (r1, r2) \<in> set ps \<and> r1 \<noteq> r2}"
proof -
  have "{x \<in> set ps. case x of (r1, r2) \<Rightarrow> r1 \<noteq> r2} = {(r1, r2). (r1, r2) \<in> set ps \<and> r1 \<noteq> r2}"
    by auto
  then show ?thesis
    unfolding wb_step_eq fold_set_add_if_set by simp
qed

lemma fold_wb_distinct:
  "distinct acc \<Longrightarrow>
   distinct (fold (\<lambda>(r1, r2) acc. if r1 \<noteq> r2 then set_add (f, ''wb'', r1, r2, w) acc else acc) ps acc)"
  unfolding wb_step_eq by (rule fold_set_add_if_distinct)

lemma set_water_bridges_of:
  "set (water_bridges_of f m w acc) = set acc \<union> wb_entries f m w"
  by (cases "map_of m w") (simp_all add: water_bridges_of_def wb_entries_def fold_wb_set)

lemma distinct_water_bridges_of:
  "distinct acc \<Longrightarrow> distinct (water_bridges_of f m w acc)"
  by (cases "map_of m w") (simp_all add: water_bridges_of_def fold_wb_distinct)

lemma set_fold_water_bridges_of:
  "set (fold (water_bridges_of f m) ws acc) = set acc \<union> (\<Union>w \<in> set ws. wb_entries f m w)"
  by (induction ws arbitrary: acc) (auto simp: set_water_bridges_of)

lemma distinct_fold_water_bridges_of:
  "distinct acc \<Longrightarrow> distinct (fold (water_bridges_of f m) ws acc)"
  by (induction ws arbitrary: acc) (auto simp: distinct_water_bridges_of)

lemma wb_entries_water: "e \<in> wb_entries f m w \<Longrightarrow> snd (snd (snd (snd e))) = w"
  by (auto simp: wb_entries_def split: option.splits)

lemma wb_entries_no_key: "map_of m w = None \<Longrightarrow> wb_entries f m w = {}"
  by (simp add: wb_entries_def)

lemma inj_wb_row: "inj wb_row"
  by (auto simp: inj_on_def wb_row_def)

lemma stratify_water_bridge_eq:
  assumes "calc_water_to_residues_map wh tok = Inr (f, m, sb)"
  shows "stratify_water_bridge wh tok =
           Inr (map wb_row (sort (fold (water_bridges_of f m) (map fst m) [])))"
  using assms by (simp add: stratify_water_bridge_def wb_row_def)


lemma set_water_bridges_all:
  "set (fold (water_bridges_of f m) (map fst m) []) = (\<Union>w. wb_entries f m w)"
proof -
  have "wb_entries f m w = {}" if "w \<notin> set (map fst m)" for w
    using that by (simp add: wb_entries_no_key map_of_eq_None_iff)
  then have "(\<Union>w \<in> set (map fst m). wb_entries f m w) = (\<Union>w. wb_entries f m w)"
    by blast
  then show ?thesis by (simp add: set_fold_water_bridges_of)
qed

lemma wb_entries_card:
  assumes "map_of m w = Some ps" and "distinct ps"
  shows "card (wb_entries f m w) = length ps choose 2"
proof -
  let ?C = "combinations2 (sort ps)"
  have d: "distinct (sort ps)" using assms(2) by simp
  have all: "{(r1, r2). (r1, r2) \<in> set ?C \<and> r1 \<noteq> r2} = set ?C"
    using combinations2_distinct_neq [OF d] by auto
  have inj: "inj_on (\<lambda>(r1, r2). (f, ''wb'', r1, r2, w)) (set ?C)"
    by (auto simp: inj_on_def)
  have "card (wb_entries f m w) = card ((\<lambda>(r1, r2). (f, ''wb'', r1, r2, w)) ` set ?C)"
    using assms(1) by (simp add: wb_entries_def all)
  also have "\<dots> = card (set ?C)" by (rule card_image [OF inj])
  also have "\<dots> = length ?C" by (rule distinct_card [OF distinct_combinations2 [OF d]])
  also have "\<dots> = length ps choose 2" by (simp add: length_combinations2)
  finally show ?thesis .
qed

lemma wb_entries_iff:
  assumes "map_of m w = Some ps" and "distinct ps"
  shows "e \<in> wb_entries f m w \<longleftrightarrow>
           (\<exists>p q. e = (f, ''wb'', p, q, w) \<and> p \<in> set ps \<and> q \<in> set ps \<and> p < q)"
proof -
  have d: "distinct (sort ps)" and s: "sorted (sort ps)" using assms(2) by simp_all
  have mem: "(p, q) \<in> set (combinations2 (sort ps)) \<longleftrightarrow> p \<in> set ps \<and> q \<in> set ps \<and> p < q" for p q
    using combinations2_sorted_less [OF s d, of p q] by simp
  show ?thesis
    using assms(1) by (auto simp: wb_entries_def mem)
qed

text \<open>
  Claim C5. For every water that is a key of the water-to-residues dictionary, with \<open>k\<close>
  distinct partners, \<^const>\<open>stratify_water_bridge\<close> returns exactly \<open>k choose 2\<close> rows
  that carry this water: the rows are pairwise different and there is one for each pair
  \<open>p < q\<close> of partners. No returned row has the same atom in its two atom fields.
\<close>

theorem stratify_water_bridge_pairs:
  assumes run: "calc_water_to_residues_map wh tok = Inr (f, m, sb)"
    and key: "map_of m w = Some ps"
  shows "\<exists>wb. stratify_water_bridge wh tok = Inr wb \<and> distinct wb
     \<and> length (filter (\<lambda>row. row ! 4 = PyStr w) wb) = card (partners m w) choose 2
     \<and> (\<forall>p q. p \<in> partners m w \<and> q \<in> partners m w \<and> p < q \<longrightarrow>
           [PyInt f, PyStr ''wb'', PyStr p, PyStr q, PyStr w] \<in> set wb)
     \<and> (\<forall>row \<in> set wb. row ! 2 \<noteq> row ! 3)"
proof -
  let ?L = "fold (water_bridges_of f m) (map fst m) []"
  let ?wb = "map wb_row (sort ?L)"
  note ok = calc_water_to_residues_map_ok [OF run]
  have vals: "distinct qs" if "map_of m v = Some qs" for v qs
    using ok that unfolding water_map_ok_def by blast
  have dps: "distinct ps" using vals [OF key] .
  have part: "partners m w = set ps" using key by (simp add: partners_def)
  have dL: "distinct ?L" by (rule distinct_fold_water_bridges_of) simp
  have setL: "set ?L = (\<Union>v. wb_entries f m v)" by (rule set_water_bridges_all)
  have eq: "stratify_water_bridge wh tok = Inr ?wb" by (rule stratify_water_bridge_eq [OF run])
  have dwb: "distinct ?wb"
    using dL inj_on_subset [OF inj_wb_row, of "set ?L"] by (simp add: distinct_map)
  have of_w: "{e. snd (snd (snd (snd e))) = w} \<inter> set (sort ?L) = wb_entries f m w"
    using wb_entries_water [of _ f m] unfolding set_sort setL by blast
  have "filter (\<lambda>row. row ! 4 = PyStr w) ?wb
          = map wb_row (filter (\<lambda>e. snd (snd (snd (snd e))) = w) (sort ?L))"
    unfolding filter_map by (rule arg_cong [where f = "map wb_row"], rule filter_cong)
      (auto simp: wb_row_def)
  then have "length (filter (\<lambda>row. row ! 4 = PyStr w) ?wb)
          = length (filter (\<lambda>e. snd (snd (snd (snd e))) = w) (sort ?L))"
    by simp
  also have "\<dots> = card ({e. snd (snd (snd (snd e))) = w} \<inter> set (sort ?L))"
    by (rule distinct_length_filter) (simp add: dL)
  also have "\<dots> = card (wb_entries f m w)" unfolding of_w ..
  also have "\<dots> = length ps choose 2" by (rule wb_entries_card [OF key dps])
  also have "length ps = card (partners m w)"
    unfolding part using distinct_card [OF dps] by simp
  finally have count: "length (filter (\<lambda>row. row ! 4 = PyStr w) ?wb) = card (partners m w) choose 2" .
  have pairs: "[PyInt f, PyStr ''wb'', PyStr p, PyStr q, PyStr w] \<in> set ?wb"
    if "p \<in> partners m w \<and> q \<in> partners m w \<and> p < q" for p q
  proof -
    from that have "(f, ''wb'', p, q, w) \<in> wb_entries f m w"
      unfolding wb_entries_iff [OF key dps] part by blast
    then have "(f, ''wb'', p, q, w) \<in> set (sort ?L)" unfolding set_sort setL by blast
    then have "wb_row (f, ''wb'', p, q, w) \<in> set ?wb" by simp
    then show ?thesis by (simp add: wb_row_def)
  qed
  have neq: "row ! 2 \<noteq> row ! 3" if "row \<in> set ?wb" for row
  proof -
    from that obtain e v where row: "row = wb_row e" and e: "e \<in> wb_entries f m v"
      unfolding set_map set_sort setL by blast
    from e obtain qs where qs: "map_of m v = Some qs"
      by (cases "map_of m v") (simp_all add: wb_entries_no_key)
    from e obtain p q where "e = (f, ''wb'', p, q, v)" "p < q"
      unfolding wb_entries_iff [OF qs vals [OF qs]] by blast
    then show ?thesis unfolding row by (simp add: wb_row_def)
  qed
  from eq dwb count pairs neq show ?thesis by blast
qed

theorem stratify_water_bridge_pairs_witness:
  "stratify_water_bridge
     [(3, ''W:TIP3:1:OH2:10'', ''A:ASP:12:OD1:100'', ''hb''),
      (3, ''A:ARG:50:NH1:200'', ''W:TIP3:1:OH2:10'', ''hb''),
      (3, ''W:TIP3:1:OH2:10'', ''A:GLY:7:N:300'', ''hb'')] ''TIP3''
   = Inr [[PyInt 3, PyStr ''wb'', PyStr ''A:ARG:50:NH1:200'', PyStr ''A:ASP:12:OD1:100'', PyStr ''W:TIP3:1:OH2:10''],
          [PyInt 3, PyStr ''wb'', PyStr ''A:ARG:50:NH1:200'', PyStr ''A:GLY:7:N:300'', PyStr ''W:TIP3:1:OH2:10''],
          [PyInt 3, PyStr ''wb'', PyStr ''A:ASP:12:OD1:100'', PyStr ''A:GLY:7:N:300'', PyStr ''W:TIP3:1:OH2:10'']]
   \<and> card (partners [(''W:TIP3:1:OH2:10'', [''A:ASP:12:OD1:100'', ''A:ARG:50:NH1:200'', ''A:GLY:7:N:300''])]
             ''W:TIP3:1:OH2:10'') choose 2 = 3"
proof -
  let ?wh = "[(3, ''W:TIP3:1:OH2:10'', ''A:ASP:12:OD1:100'', ''hb''),
      (3, ''A:ARG:50:NH1:200'', ''W:TIP3:1:OH2:10'', ''hb''),
      (3, ''W:TIP3:1:OH2:10'', ''A:GLY:7:N:300'', ''hb'')] :: hbond list"
  let ?m = "[(''W:TIP3:1:OH2:10'', [''A:ASP:12:OD1:100'', ''A:ARG:50:NH1:200'', ''A:GLY:7:N:300''])]"
  have run: "calc_water_to_residues_map ?wh ''TIP3'' = Inr (3, ?m, [])"
    by (simp add: calc_water_to_residues_map_def add_residue_def set_add_def)
  have key: "map_of ?m ''W:TIP3:1:OH2:10'' = Some [''A:ASP:12:OD1:100'', ''A:ARG:50:NH1:200'', ''A:GLY:7:N:300'']"
    by simp
  have val: "stratify_water_bridge ?wh ''TIP3''
   = Inr [[PyInt 3, PyStr ''wb'', PyStr ''A:ARG:50:NH1:200'', PyStr ''A:ASP:12:OD1:100'', PyStr ''W:TIP3:1:OH2:10''],
          [PyInt 3, PyStr ''wb'', PyStr ''A:ARG:50:NH1:200'', PyStr ''A:GLY:7:N:300'', PyStr ''W:TIP3:1:OH2:10''],
          [PyInt 3, PyStr ''wb'', PyStr ''A:ASP:12:OD1:100'', PyStr ''A:GLY:7:N:300'', PyStr ''W:TIP3:1:OH2:10'']]"
    by (simp add: stratify_water_bridge_def run water_bridges_of_def set_add_def)
  from stratify_water_bridge_pairs [OF run key] val
  have "length (filter (\<lambda>row. row ! 4 = PyStr ''W:TIP3:1:OH2:10'')
      [[PyInt 3, PyStr ''wb'', PyStr ''A:ARG:50:NH1:200'', PyStr ''A:ASP:12:OD1:100'', PyStr ''W:TIP3:1:OH2:10''],
          [PyInt 3, PyStr ''wb'', PyStr ''A:ARG:50:NH1:200'', PyStr ''A:GLY:7:N:300'', PyStr ''W:TIP3:1:OH2:10''],
          [PyInt 3, PyStr ''wb'', PyStr ''A:ASP:12:OD1:100'', PyStr ''A:GLY:7:N:300'', PyStr ''W:TIP3:1:OH2:10'']])
     = card (partners ?m ''W:TIP3:1:OH2:10'') choose 2"
    by auto
  then have "card (partners ?m ''W:TIP3:1:OH2:10'') choose 2 = 3" by simp
  with val show ?thesis by blast
qed

section \<open>Extended water bridges\<close>

lemma fold_set_add_set: "set (fold (\<lambda>x acc. set_add (g x) acc) xs acc) = set acc \<union> g ` set xs"
  by (induction xs arbitrary: acc) (auto simp: set_set_add)

lemma fold_set_add_distinct:
  "distinct acc \<Longrightarrow> distinct (fold (\<lambda>x acc. set_add (g x) acc) xs acc)"
  by (induction xs arbitrary: acc) (auto simp: distinct_set_add)

lemma fold_fold_set_add_set:
  "set (fold (\<lambda>x acc1. fold (\<lambda>y acc2. set_add (g x y) acc2) ys acc1) xs acc)
   = set acc \<union> (\<lambda>(x, y). g x y) ` (set xs \<times> set ys)"
  by (induction xs arbitrary: acc) (auto simp: fold_set_add_set)

lemma fold_fold_set_add_distinct:
  "distinct acc \<Longrightarrow>
   distinct (fold (\<lambda>x acc1. fold (\<lambda>y acc2. set_add (g x y) acc2) ys acc1) xs acc)"
  by (induction xs arbitrary: acc) (auto simp: fold_set_add_distinct)

lemma set_extended_bridges_of:
  "set (extended_bridges_of f m ww acc) = set acc \<union> wb2_entries f m ww"
proof -
  obtain w1 w2 where ww: "ww = (w1, w2)" by (cases ww) auto
  show ?thesis
    unfolding ww
    by (cases "map_of m w1"; cases "map_of m w2")
       (simp_all add: extended_bridges_of_def wb2_entries_def partners_def fold_fold_set_add_set)
qed

lemma distinct_extended_bridges_of:
  "distinct acc \<Longrightarrow> distinct (extended_bridges_of f m ww acc)"
proof -
  assume d: "distinct acc"
  obtain w1 w2 where ww: "ww = (w1, w2)" by (cases ww) auto
  show ?thesis
    unfolding ww using d
    by (cases "map_of m w1"; cases "map_of m w2")
       (simp_all add: extended_bridges_of_def fold_fold_set_add_distinct)
qed

lemma set_fold_extended_bridges_of:
  "set (fold (extended_bridges_of f m) sb acc) = set acc \<union> (\<Union>ww \<in> set sb. wb2_entries f m ww)"
  by (induction sb arbitrary: acc) (auto simp: set_extended_bridges_of)

lemma distinct_fold_extended_bridges_of:
  "distinct acc \<Longrightarrow> distinct (fold (extended_bridges_of f m) sb acc)"
  by (induction sb arbitrary: acc) (auto simp: distinct_extended_bridges_of)

lemma inj_wb2_row: "inj wb2_row"
  by (auto simp: inj_on_def wb2_row_def)

lemma stratify_extended_water_bridge_eq:
  assumes "calc_water_to_residues_map wh tok = Inr (f, m, sb)"
  shows "stratify_extended_water_bridge wh tok =
           Inr (map wb2_row (sort (fold (extended_bridges_of f m) sb [])))"
  using assms by (simp add: stratify_extended_water_bridge_def wb2_row_def)

lemma wb2_entries_iff:
  "e \<in> wb2_entries f m (w1, w2) \<longleftrightarrow>
     (\<exists>a1 a2. e = (f, ''wb2'', a1, a2, w1, w2) \<and> a1 \<in> partners m w1 \<and> a2 \<in> partners m w2)"
  by (auto simp: wb2_entries_def)

lemma wb2_entries_card:
  assumes "water_map_ok m"
  shows "card (wb2_entries f m (w1, w2)) = card (partners m w1) * card (partners m w2)"
proof -
  have inj: "inj_on (\<lambda>(a1, a2). (f, ''wb2'', a1, a2, w1, w2)) (partners m w1 \<times> partners m w2)"
    by (auto simp: inj_on_def)
  have "card (wb2_entries f m (w1, w2)) = card (partners m w1 \<times> partners m w2)"
    unfolding wb2_entries_def by (simp add: card_image [OF inj])
  then show ?thesis by (simp add: card_cartesian_product)
qed

lemma stratify_extended_water_bridge_set:
  assumes run: "calc_water_to_residues_map wh tok = Inr (f, m, sb)"
  shows "\<exists>wb2. stratify_extended_water_bridge wh tok = Inr wb2 \<and> distinct wb2
     \<and> (\<forall>row. row \<in> set wb2 \<longleftrightarrow>
           (\<exists>a1 a2 w1 w2. row = [PyInt f, PyStr ''wb2'', PyStr a1, PyStr a2, PyStr w1, PyStr w2]
              \<and> (w1, w2) \<in> set sb \<and> a1 \<in> partners m w1 \<and> a2 \<in> partners m w2))"
proof -
  let ?L = "fold (extended_bridges_of f m) sb []"
  let ?wb2 = "map wb2_row (sort ?L)"
  have eq: "stratify_extended_water_bridge wh tok = Inr ?wb2"
    by (rule stratify_extended_water_bridge_eq [OF run])
  have dL: "distinct ?L" by (rule distinct_fold_extended_bridges_of) simp
  have d: "distinct ?wb2"
    using dL inj_on_subset [OF inj_wb2_row, of "set ?L"] by (simp add: distinct_map)
  have setL: "set ?L = (\<Union>ww \<in> set sb. wb2_entries f m ww)"
    by (simp add: set_fold_extended_bridges_of)
  have mem: "row \<in> set ?wb2 \<longleftrightarrow>
           (\<exists>a1 a2 w1 w2. row = [PyInt f, PyStr ''wb2'', PyStr a1, PyStr a2, PyStr w1, PyStr w2]
              \<and> (w1, w2) \<in> set sb \<and> a1 \<in> partners m w1 \<and> a2 \<in> partners m w2)" for row
  proof
    assume "row \<in> set ?wb2"
    then obtain e ww where row: "row = wb2_row e" and ww: "ww \<in> set sb" and e: "e \<in> wb2_entries f m ww"
      unfolding set_map set_sort setL by blast
    obtain w1 w2 where w: "ww = (w1, w2)" by (cases ww) auto
    from e obtain a1 a2 where "e = (f, ''wb2'', a1, a2, w1, w2)" "a1 \<in> partners m w1" "a2 \<in> partners m w2"
      unfolding w wb2_entries_iff by blast
    with ww w row show "\<exists>a1 a2 w1 w2. row = [PyInt f, PyStr ''wb2'', PyStr a1, PyStr a2, PyStr w1, PyStr w2]
              \<and> (w1, w2) \<in> set sb \<and> a1 \<in> partners m w1 \<and> a2 \<in> partners m w2"
      by (auto simp: wb2_row_def)
  next
    assume "\<exists>a1 a2 w1 w2. row = [PyInt f, PyStr ''wb2'', PyStr a1, PyStr a2, PyStr w1, PyStr w2]
              \<and> (w1, w2) \<in> set sb \<and> a1 \<in> partners m w1 \<and> a2 \<in> partners m w2"
    then obtain a1 a2 w1 w2 where row: "row = [PyInt f, PyStr ''wb2'', PyStr a1, PyStr a2, PyStr w1, PyStr w2]"
      and sb: "(w1, w2) \<in> set sb" and a: "a1 \<in> partners m w1" "a2 \<in> partners m w2" by blast
    from a have "(f, ''wb2'', a1, a2, w1, w2) \<in> wb2_entries f m (w1, w2)"
      unfolding wb2_entries_iff by blast
    with sb have "(f, ''wb2'', a1, a2, w1, w2) \<in> set (sort ?L)"
      unfolding set_sort setL by blast
    then have "wb2_row (f, ''wb2'', a1, a2, w1, w2) \<in> set ?wb2" by simp
    then show "row \<in> set ?wb2" unfolding row by (simp add: wb2_row_def)
  qed
  from eq d mem show ?thesis by blast
qed


text \<open>
  Claim C6. Every row returned by \<^const>\<open>stratify_extended_water_bridge\<close> comes from
  a returned solvent bridge \<open>(w1, w2)\<close>, a partner of \<open>w1\<close> and a partner of \<open>w2\<close>, so
  both waters have a protein partner. Conversely, for every returned solvent bridge and
  every element of the cross product (partners of \<open>w1\<close>) times (partners of \<open>w2\<close>) the row
  of that element is returned, and no row is returned twice; so the rows that carry the two
  waters of a bridge number (partners of \<open>w1\<close>) times (partners of \<open>w2\<close>). No participant
  field of any row is a water without protein partner.
\<close>

theorem stratify_extended_water_bridge_cross_product:
  assumes run: "calc_water_to_residues_map wh tok = Inr (f, m, sb)"
  shows "\<exists>wb2. stratify_extended_water_bridge wh tok = Inr wb2
     \<and> distinct wb2
     \<and> (\<forall>row \<in> set wb2. \<exists>a1 a2 w1 w2.
           row = [PyInt f, PyStr ''wb2'', PyStr a1, PyStr a2, PyStr w1, PyStr w2]
           \<and> (w1, w2) \<in> set sb \<and> a1 \<in> partners m w1 \<and> a2 \<in> partners m w2)
     \<and> (\<forall>w1 w2 a1 a2. (w1, w2) \<in> set sb \<and> a1 \<in> partners m w1 \<and> a2 \<in> partners m w2 \<longrightarrow>
           [PyInt f, PyStr ''wb2'', PyStr a1, PyStr a2, PyStr w1, PyStr w2] \<in> set wb2)
     \<and> (\<forall>w1 w2. (w1, w2) \<in> set sb \<longrightarrow>
           length (filter (\<lambda>row. row ! 4 = PyStr w1 \<and> row ! 5 = PyStr w2) wb2)
             = card (partners m w1) * card (partners m w2))
     \<and> (\<forall>w. str_in tok w \<and> partners m w = {} \<longrightarrow>
           (\<forall>row \<in> set wb2. PyStr w \<notin> set (drop 2 row)))"
proof -
  from stratify_extended_water_bridge_set [OF run]
  obtain wb2 where eq: "stratify_extended_water_bridge wh tok = Inr wb2" and d: "distinct wb2"
    and mem: "\<And>row. row \<in> set wb2 \<longleftrightarrow>
           (\<exists>a1 a2 w1 w2. row = [PyInt f, PyStr ''wb2'', PyStr a1, PyStr a2, PyStr w1, PyStr w2]
              \<and> (w1, w2) \<in> set sb \<and> a1 \<in> partners m w1 \<and> a2 \<in> partners m w2)"
    by blast
  have only: "\<forall>row \<in> set wb2. \<exists>a1 a2 w1 w2.
           row = [PyInt f, PyStr ''wb2'', PyStr a1, PyStr a2, PyStr w1, PyStr w2]
           \<and> (w1, w2) \<in> set sb \<and> a1 \<in> partners m w1 \<and> a2 \<in> partners m w2"
    using mem by blast
  have each: "\<forall>w1 w2 a1 a2. (w1, w2) \<in> set sb \<and> a1 \<in> partners m w1 \<and> a2 \<in> partners m w2 \<longrightarrow>
           [PyInt f, PyStr ''wb2'', PyStr a1, PyStr a2, PyStr w1, PyStr w2] \<in> set wb2"
    unfolding mem by blast
  have count: "length (filter (\<lambda>row. row ! 4 = PyStr w1 \<and> row ! 5 = PyStr w2) wb2)
             = card (partners m w1) * card (partners m w2)"
    if sb: "(w1, w2) \<in> set sb" for w1 w2
  proof -
    let ?g = "\<lambda>(a1, a2). [PyInt f, PyStr ''wb2'', PyStr a1, PyStr a2, PyStr w1, PyStr w2]"
    have inj: "inj_on ?g (partners m w1 \<times> partners m w2)"
      by (auto simp: inj_on_def)
    have "{row. row ! 4 = PyStr w1 \<and> row ! 5 = PyStr w2} \<inter> set wb2
            = ?g ` (partners m w1 \<times> partners m w2)"
    proof (intro set_eqI iffI)
      fix row assume "row \<in> {row. row ! 4 = PyStr w1 \<and> row ! 5 = PyStr w2} \<inter> set wb2"
      then have r: "row ! 4 = PyStr w1" "row ! 5 = PyStr w2" "row \<in> set wb2" by simp_all
      from r(3) obtain a1 a2 v1 v2 where
        row: "row = [PyInt f, PyStr ''wb2'', PyStr a1, PyStr a2, PyStr v1, PyStr v2]"
        and a: "a1 \<in> partners m v1" "a2 \<in> partners m v2"
        unfolding mem by blast
      from r(1,2) have "v1 = w1" "v2 = w2" unfolding row by simp_all
      with a row show "row \<in> ?g ` (partners m w1 \<times> partners m w2)" by auto
    next
      fix row assume "row \<in> ?g ` (partners m w1 \<times> partners m w2)"
      then obtain a1 a2 where
        row: "row = [PyInt f, PyStr ''wb2'', PyStr a1, PyStr a2, PyStr w1, PyStr w2]"
        and a: "a1 \<in> partners m w1" "a2 \<in> partners m w2" by auto
      with sb have "row \<in> set wb2" unfolding mem by blast
      then show "row \<in> {row. row ! 4 = PyStr w1 \<and> row ! 5 = PyStr w2} \<inter> set wb2"
        unfolding row by simp
    qed
    then have "card ({row. row ! 4 = PyStr w1 \<and> row ! 5 = PyStr w2} \<inter> set wb2)
                 = card (partners m w1 \<times> partners m w2)"
      by (simp add: card_image [OF inj])
    then show ?thesis
      unfolding distinct_length_filter [OF d] by (simp add: card_cartesian_product)
  qed
  have none: "PyStr w \<notin> set (drop 2 row)"
    if w: "str_in tok w \<and> partners m w = {}" and row: "row \<in> set wb2" for w row
  proof -
    from row obtain a1 a2 w1 w2 where
      r: "row = [PyInt f, PyStr ''wb2'', PyStr a1, PyStr a2, PyStr w1, PyStr w2]"
      and a: "a1 \<in> partners m w1" "a2 \<in> partners m w2"
      unfolding mem by blast
    from a have "\<not> str_in tok a1" "\<not> str_in tok a2"
      unfolding calc_water_to_residues_map_partners [OF run] by blast+
    with w have "w \<noteq> a1" "w \<noteq> a2" by blast+
    moreover from a w have "w \<noteq> w1" "w \<noteq> w2" by blast+
    ultimately show ?thesis unfolding r by simp
  qed
  from eq d only each count none show ?thesis by blast
qed

theorem stratify_extended_water_bridge_cross_product_witness:
  "stratify_extended_water_bridge
     [(3, ''W:TIP3:1:OH2:10'', ''A:ASP:12:OD1:100'', ''hb''),
      (3, ''W:TIP3:1:OH2:10'', ''W:TIP3:2:OH2:20'', ''hb''),
      (3, ''W:TIP3:3:OH2:30'', ''W:TIP3:1:OH2:10'', ''hb''),
      (3, ''A:ARG:50:NH1:200'', ''W:TIP3:2:OH2:20'', ''hb''),
      (3, ''W:TIP3:2:OH2:20'', ''A:GLY:7:N:300'', ''hb'')] ''TIP3''
   = Inr [[PyInt 3, PyStr ''wb2'', PyStr ''A:ASP:12:OD1:100'', PyStr ''A:ARG:50:NH1:200'',
           PyStr ''W:TIP3:1:OH2:10'', PyStr ''W:TIP3:2:OH2:20''],
          [PyInt 3, PyStr ''wb2'', PyStr ''A:ASP:12:OD1:100'', PyStr ''A:GLY:7:N:300'',
           PyStr ''W:TIP3:1:OH2:10'', PyStr ''W:TIP3:2:OH2:20'']]
   \<and> card (partners [(''W:TIP3:1:OH2:10'', [''A:ASP:12:OD1:100'']),
                      (''W:TIP3:2:OH2:20'', [''A:ARG:50:NH1:200'', ''A:GLY:7:N:300''])] ''W:TIP3:1:OH2:10'')
     * card (partners [(''W:TIP3:1:OH2:10'', [''A:ASP:12:OD1:100'']),
                      (''W:TIP3:2:OH2:20'', [''A:ARG:50:NH1:200'', ''A:GLY:7:N:300''])] ''W:TIP3:2:OH2:20'')
     = 2"
proof -
  let ?wh = "[(3, ''W:TIP3:1:OH2:10'', ''A:ASP:12:OD1:100'', ''hb''),
      (3, ''W:TIP3:1:OH2:10'', ''W:TIP3:2:OH2:20'', ''hb''),
      (3, ''W:TIP3:3:OH2:30'', ''W:TIP3:1:OH2:10'', ''hb''),
      (3, ''A:ARG:50:NH1:200'', ''W:TIP3:2:OH2:20'', ''hb''),
      (3, ''W:TIP3:2:OH2:20'', ''A:GLY:7:N:300'', ''hb'')] :: hbond list"
  let ?m = "[(''W:TIP3:1:OH2:10'', [''A:ASP:12:OD1:100'']),
             (''W:TIP3:2:OH2:20'', [''A:ARG:50:NH1:200'', ''A:GLY:7:N:300''])]"
  let ?sb = "[(''W:TIP3:1:OH2:10'', ''W:TIP3:2:OH2:20''), (''W:TIP3:3:OH2:30'', ''W:TIP3:1:OH2:10'')]"
  let ?rows = "[[PyInt 3, PyStr ''wb2'', PyStr ''A:ASP:12:OD1:100'', PyStr ''A:ARG:50:NH1:200'',
           PyStr ''W:TIP3:1:OH2:10'', PyStr ''W:TIP3:2:OH2:20''],
          [PyInt 3, PyStr ''wb2'', PyStr ''A:ASP:12:OD1:100'', PyStr ''A:GLY:7:N:300'',
           PyStr ''W:TIP3:1:OH2:10'', PyStr ''W:TIP3:2:OH2:20'']]"
  have run: "calc_water_to_residues_map ?wh ''TIP3'' = Inr (3, ?m, ?sb)"
    by code_simp
  have val: "stratify_extended_water_bridge ?wh ''TIP3'' = Inr ?rows"
    by code_simp
  have sb: "(''W:TIP3:1:OH2:10'', ''W:TIP3:2:OH2:20'') \<in> set ?sb" by simp
  from stratify_extended_water_bridge_cross_product [OF run]
  obtain wb2 where eq: "stratify_extended_water_bridge ?wh ''TIP3'' = Inr wb2"
    and cnt: "\<forall>w1 w2. (w1, w2) \<in> set ?sb \<longrightarrow>
           length (filter (\<lambda>row. row ! 4 = PyStr w1 \<and> row ! 5 = PyStr w2) wb2)
             = card (partners ?m w1) * card (partners ?m w2)"
    by blast
  from eq val have wb2: "wb2 = ?rows" by simp
  from cnt sb
  have "length (filter (\<lambda>row. row ! 4 = PyStr ''W:TIP3:1:OH2:10'' \<and> row ! 5 = PyStr ''W:TIP3:2:OH2:20'') wb2)
     = card (partners ?m ''W:TIP3:1:OH2:10'') * card (partners ?m ''W:TIP3:2:OH2:20'')"
    by blast
  then have "card (partners ?m ''W:TIP3:1:OH2:10'') * card (partners ?m ''W:TIP3:2:OH2:20'') = 2"
    unfolding wb2 by simp
  with val show ?thesis by blast
qed

section \<open>Layout of the output rows\<close>

lemma stratify_residue_loop_row_length:
  assumes "stratify_residue_loop hs (ss, sb, bb) = Inr (ss', sb', bb')"
    and "\<forall>r \<in> set ss \<union> set sb \<union> set bb. length r = 4"
  shows "\<forall>r \<in> set ss' \<union> set sb' \<union> set bb'. length r = 4"
  using assms
proof (induction hs arbitrary: ss sb bb)
  case Nil
  then show ?case by simp
next
  case (Cons h hs)
  obtain f a1 a2 t where h: "h = (f, a1, a2, t)" by (cases h) auto
  from Cons.prems(1) obtain n1 n2 where n: "atom_name a1 = Inr n1" "atom_name a2 = Inr n2"
    unfolding h by (auto split: sum.splits)
  define ss1 where "ss1 = (if n1 \<notin> set backbone_atoms \<and> n2 \<notin> set backbone_atoms
                      then ss @ [[PyInt f, PyStr ''hbss'', PyStr a1, PyStr a2]] else ss)"
  define sb1 where "sb1 = (if (n1 \<notin> set backbone_atoms \<and> n2 \<in> set backbone_atoms) \<or>
                         (n1 \<in> set backbone_atoms \<and> n2 \<notin> set backbone_atoms)
                      then sb @ [[PyInt f, PyStr ''hbsb'', PyStr a1, PyStr a2]] else sb)"
  define bb1 where "bb1 = (if n1 \<in> set backbone_atoms \<and> n2 \<in> set backbone_atoms
                      then bb @ [[PyInt f, PyStr ''hbbb'', PyStr a1, PyStr a2]] else bb)"
  from Cons.prems(1) have step: "stratify_residue_loop hs (ss1, sb1, bb1) = Inr (ss', sb', bb')"
    unfolding h ss1_def sb1_def bb1_def using n by (simp add: Let_def)
  have "\<forall>r \<in> set ss1 \<union> set sb1 \<union> set bb1. length r = 4"
    using Cons.prems(2) unfolding ss1_def sb1_def bb1_def by auto
  from Cons.IH [OF step this] show ?case .
qed

text \<open>
  Claim C3, as amended. Every row returned by \<^const>\<open>stratify_extended_water_bridge\<close> has
  six fields in the order frame, type tag \<^verbatim>\<open>wb2\<close>, atom1, atom2, water1, water2: the tag is
  the second field and the two protein atoms come before the two waters. The frame is the
  frame index returned by the map builder, that of the last contact of the batch;
  (water1, water2) is a returned solvent bridge, hence the label pair of a water-water
  contact of the batch; atom1 is a partner of water1 and atom2 a partner of water2, each
  joined to its water by a contact of the batch. That is one field more than a row of
  \<^const>\<open>stratify_water_bridge\<close> (five fields) and two more than a row of
  \<^const>\<open>stratify_residue_hbonds\<close> (four fields).
\<close>

theorem extended_row_layout:
  assumes "stratify_extended_water_bridge wh tok = Inr wb2" and "row \<in> set wb2"
  shows "length row = 6
     \<and> (\<exists>f m sb a1 a2 w1 w2.
           calc_water_to_residues_map wh tok = Inr (f, m, sb)
           \<and> wh \<noteq> [] \<and> f = fst (last wh)
           \<and> row = [PyInt f, PyStr ''wb2'', PyStr a1, PyStr a2, PyStr w1, PyStr w2]
           \<and> (w1, w2) \<in> set sb \<and> a1 \<in> partners m w1 \<and> a2 \<in> partners m w2
           \<and> \<not> str_in tok a1 \<and> \<not> str_in tok a2 \<and> str_in tok w1 \<and> str_in tok w2
           \<and> (\<exists>f1 t1. (f1, w1, a1, t1) \<in> set wh \<or> (f1, a1, w1, t1) \<in> set wh)
           \<and> (\<exists>f2 t2. (f2, w2, a2, t2) \<in> set wh \<or> (f2, a2, w2, t2) \<in> set wh)
           \<and> (\<exists>f3 t3. (f3, w1, w2, t3) \<in> set wh))
     \<and> (\<forall>wb r. stratify_water_bridge wh tok = Inr wb \<and> r \<in> set wb \<longrightarrow> length r = 5)
     \<and> (\<forall>hs hbss hbsb hbbb r. stratify_residue_hbonds hs = Inr (hbss, hbsb, hbbb)
           \<and> r \<in> set hbss \<union> set hbsb \<union> set hbbb \<longrightarrow> length r = 4)"
proof -
  from assms(1) obtain f m sb where run: "calc_water_to_residues_map wh tok = Inr (f, m, sb)"
    unfolding stratify_extended_water_bridge_def by (auto split: sum.splits)
  from stratify_extended_water_bridge_set [OF run] assms
  obtain a1 a2 w1 w2 where
    row: "row = [PyInt f, PyStr ''wb2'', PyStr a1, PyStr a2, PyStr w1, PyStr w2]"
    and sb: "(w1, w2) \<in> set sb"
    and a: "a1 \<in> partners m w1" "a2 \<in> partners m w2"
    by auto
  from a have fields: "\<not> str_in tok a1 \<and> \<not> str_in tok a2 \<and> str_in tok w1 \<and> str_in tok w2"
    unfolding calc_water_to_residues_map_partners [OF run] by blast
  from a(1) have c1: "\<exists>f1 t1. (f1, w1, a1, t1) \<in> set wh \<or> (f1, a1, w1, t1) \<in> set wh"
    unfolding calc_water_to_residues_map_partners [OF run] by blast
  from a(2) have c2: "\<exists>f2 t2. (f2, w2, a2, t2) \<in> set wh \<or> (f2, a2, w2, t2) \<in> set wh"
    unfolding calc_water_to_residues_map_partners [OF run] by blast
  from sb have "(w1, w2) \<in> set (dedup_loop (solvent_pairs tok wh) [])"
    unfolding calc_water_to_residues_map_bridges [OF run] by simp
  with set_dedup_loop_subset [of "solvent_pairs tok wh" "[]"]
  have "(w1, w2) \<in> set (solvent_pairs tok wh)" by auto
  then have c3: "\<exists>f3 t3. (f3, w1, w2, t3) \<in> set wh"
    unfolding solvent_pairs_iff by blast
  then have ne: "wh \<noteq> []" by auto
  from run have "f = (if wh = [] then 0 else fst (last wh))"
    unfolding calc_water_to_residues_map_eq by (simp split: if_splits)
  with ne have fr: "f = fst (last wh)" by simp
  have five: "length r = 5" if "stratify_water_bridge wh tok = Inr wb \<and> r \<in> set wb" for wb r
    using that unfolding stratify_water_bridge_eq [OF run] by (auto simp: wb_row_def)
  have four: "length r = 4"
    if "stratify_residue_hbonds hs = Inr (hbss, hbsb, hbbb) \<and> r \<in> set hbss \<union> set hbsb \<union> set hbbb"
    for hs hbss hbsb hbbb r
    using that stratify_residue_loop_row_length [of hs "[]" "[]" "[]" hbss hbsb hbbb]
    unfolding stratify_residue_hbonds_def by simp
  have len: "length row = 6" unfolding row by simp
  have ex: "\<exists>f m sb a1 a2 w1 w2.
           calc_water_to_residues_map wh tok = Inr (f, m, sb)
           \<and> wh \<noteq> [] \<and> f = fst (last wh)
           \<and> row = [PyInt f, PyStr ''wb2'', PyStr a1, PyStr a2, PyStr w1, PyStr w2]
           \<and> (w1, w2) \<in> set sb \<and> a1 \<in> partners m w1 \<and> a2 \<in> partners m w2
           \<and> \<not> str_in tok a1 \<and> \<not> str_in tok a2 \<and> str_in tok w1 \<and> str_in tok w2
           \<and> (\<exists>f1 t1. (f1, w1, a1, t1) \<in> set wh \<or> (f1, a1, w1, t1) \<in> set wh)
           \<and> (\<exists>f2 t2. (f2, w2, a2, t2) \<in> set wh \<or> (f2, a2, w2, t2) \<in> set wh)
           \<and> (\<exists>f3 t3. (f3, w1, w2, t3) \<in> set wh)"
    using run ne fr row sb a fields c1 c2 c3 by blast
  from len ex five four show ?thesis by blast
qed

theorem extended_row_layout_witness:
  "stratify_extended_water_bridge
     [(3, ''W:TIP3:1:OH2:10'', ''A:ASP:12:OD1:100'', ''hb''),
      (3, ''W:TIP3:1:OH2:10'', ''W:TIP3:2:OH2:20'', ''hb''),
      (3, ''A:ARG:50:NH1:200'', ''W:TIP3:2:OH2:20'', ''hb'')] ''TIP3''
   = Inr [[PyInt 3, PyStr ''wb2'', PyStr ''A:ASP:12:OD1:100'', PyStr ''A:ARG:50:NH1:200'',
           PyStr ''W:TIP3:1:OH2:10'', PyStr ''W:TIP3:2:OH2:20'']]
   \<and> length [PyInt 3, PyStr ''wb2'', PyStr ''A:ASP:12:OD1:100'', PyStr ''A:ARG:50:NH1:200'',
           PyStr ''W:TIP3:1:OH2:10'', PyStr ''W:TIP3:2:OH2:20''] = 6"
proof -
  let ?wh = "[(3, ''W:TIP3:1:OH2:10'', ''A:ASP:12:OD1:100'', ''hb''),
      (3, ''W:TIP3:1:OH2:10'', ''W:TIP3:2:OH2:20'', ''hb''),
      (3, ''A:ARG:50:NH1:200'', ''W:TIP3:2:OH2:20'', ''hb'')] :: hbond list"
  let ?row = "[PyInt 3, PyStr ''wb2'', PyStr ''A:ASP:12:OD1:100'', PyStr ''A:ARG:50:NH1:200'',
           PyStr ''W:TIP3:1:OH2:10'', PyStr ''W:TIP3:2:OH2:20'']"
  have val: "stratify_extended_water_bridge ?wh ''TIP3'' = Inr [?row]"
    by code_simp
  have mem: "?row \<in> set [?row]" by simp
  from extended_row_layout [OF val mem] have "length ?row = 6" by blast
  with val show ?thesis by blast
qed

text \<open>
  Claim C3 as stated fails: for waters W1, W2 bonded to each other, W1 to an ASP atom and W2
  to an ARG atom, the returned row has the tag second and both atoms before both waters; it
  is neither (frame, atom1, water1, water2, atom2, tag) nor the same with the tag second.
\<close>

theorem extended_row_order_counterexample:
  "stratify_extended_water_bridge
     [(3, ''W:TIP3:1:OH2:10'', ''A:ASP:12:OD1:100'', ''hb''),
      (3, ''W:TIP3:1:OH2:10'', ''W:TIP3:2:OH2:20'', ''hb''),
      (3, ''A:ARG:50:NH1:200'', ''W:TIP3:2:OH2:20'', ''hb'')] ''TIP3''
   = Inr [[PyInt 3, PyStr ''wb2'', PyStr ''A:ASP:12:OD1:100'', PyStr ''A:ARG:50:NH1:200'',
           PyStr ''W:TIP3:1:OH2:10'', PyStr ''W:TIP3:2:OH2:20'']]
   \<and> [PyInt 3, PyStr ''wb2'', PyStr ''A:ASP:12:OD1:100'', PyStr ''A:ARG:50:NH1:200'',
       PyStr ''W:TIP3:1:OH2:10'', PyStr ''W:TIP3:2:OH2:20'']
     \<noteq> [PyInt 3, PyStr ''A:ASP:12:OD1:100'', PyStr ''W:TIP3:1:OH2:10'', PyStr ''W:TIP3:2:OH2:20'',
        PyStr ''A:ARG:50:NH1:200'', PyStr ''wb2'']
   \<and> [PyInt 3, PyStr ''wb2'', PyStr ''A:ASP:12:OD1:100'', PyStr ''A:ARG:50:NH1:200'',
       PyStr ''W:TIP3:1:OH2:10'', PyStr ''W:TIP3:2:OH2:20'']
     \<noteq> [PyInt 3, PyStr ''wb2'', PyStr ''A:ASP:12:OD1:100'', PyStr ''W:TIP3:1:OH2:10'',
        PyStr ''W:TIP3:2:OH2:20'', PyStr ''A:ARG:50:NH1:200'']"
  by code_simp

section \<open>End-to-end: one water between two residues\<close>

lemma one_water_two_residues_map:
  assumes "str_in tok W1" "\<not> str_in tok R1" "\<not> str_in tok R2" "R1 \<noteq> R2"
    and "h1 = (f1, W1, R1, t1) \<or> h1 = (f1, R1, W1, t1)"
    and "h2 = (f, W1, R2, t2) \<or> h2 = (f, R2, W1, t2)"
  shows "calc_water_to_residues_map [h1, h2] tok = Inr (f, [(W1, [R1, R2])], [])"
  using assms
  by (auto simp: calc_water_to_residues_map_def add_residue_def set_add_def)

lemma one_water_two_residues_split:
  assumes "str_in tok W1"
    and "h1 = (f1, W1, R1, t1) \<or> h1 = (f1, R1, W1, t1)"
    and "h2 = (f, W1, R2, t2) \<or> h2 = (f, R2, W1, t2)"
  shows "residue_vs_water_hbonds [h1, h2] tok = ([], [h1, h2])"
  using assms by (auto simp: residue_vs_water_hbonds_def)

text \<open>
  Claim C7, as amended. When a water W1 (its label contains the solvent token) is bonded to
  two different atoms R1 and R2 (their labels do not contain the token) in frame \<open>f\<close>, each
  contact given in either orientation, \<^const>\<open>stratify_hbond_subtypes\<close> returns exactly one
  row: \<open>f\<close>, the tag \<^verbatim>\<open>wb\<close>, the smaller of the two atom labels, the larger one, and the
  label of the water as fifth field. No \<^verbatim>\<open>hbss\<close>, \<^verbatim>\<open>hbsb\<close>, \<^verbatim>\<open>hbbb\<close> or \<^verbatim>\<open>wb2\<close> row
  is returned.
\<close>

theorem one_water_two_residues:
  assumes "str_in tok W1" "\<not> str_in tok R1" "\<not> str_in tok R2" "R1 \<noteq> R2"
    and "h1 = (f, W1, R1, t1) \<or> h1 = (f, R1, W1, t1)"
    and "h2 = (f, W1, R2, t2) \<or> h2 = (f, R2, W1, t2)"
  shows "stratify_hbond_subtypes [h1, h2] tok =
           Inr [[PyInt f, PyStr ''wb'', PyStr (min R1 R2), PyStr (max R1 R2), PyStr W1]]"
proof -
  note run = one_water_two_residues_map [OF assms]
  note split = one_water_two_residues_split [OF assms(1,5,6)]
  have res: "stratify_residue_hbonds [] = Inr ([], [], [])"
    by (simp add: stratify_residue_hbonds_def)
  have wb: "stratify_water_bridge [h1, h2] tok =
              Inr [[PyInt f, PyStr ''wb'', PyStr (min R1 R2), PyStr (max R1 R2), PyStr W1]]"
    using assms(4)
    by (simp add: stratify_water_bridge_def run water_bridges_of_def set_add_def min_def max_def)
  have wb2: "stratify_extended_water_bridge [h1, h2] tok = Inr []"
    by (simp add: stratify_extended_water_bridge_def run)
  show ?thesis
    by (simp add: stratify_hbond_subtypes_def split res wb wb2)
qed

theorem one_water_two_residues_witness:
  "stratify_hbond_subtypes
     [(3, ''W:TIP3:1:OH2:10'', ''A:ASP:12:OD1:100'', ''hb''),
      (3, ''A:ARG:50:NH1:200'', ''W:TIP3:1:OH2:10'', ''hb'')] ''TIP3''
   = Inr [[PyInt 3, PyStr ''wb'', PyStr ''A:ARG:50:NH1:200'', PyStr ''A:ASP:12:OD1:100'',
           PyStr ''W:TIP3:1:OH2:10'']]"
proof -
  have a: "str_in ''TIP3'' ''W:TIP3:1:OH2:10''" "\<not> str_in ''TIP3'' ''A:ASP:12:OD1:100''"
    "\<not> str_in ''TIP3'' ''A:ARG:50:NH1:200''" "''A:ASP:12:OD1:100'' \<noteq> ''A:ARG:50:NH1:200''"
    by simp_all
  have m: "min ''A:ASP:12:OD1:100'' ''A:ARG:50:NH1:200'' = ''A:ARG:50:NH1:200''"
    "max ''A:ASP:12:OD1:100'' ''A:ARG:50:NH1:200'' = ''A:ASP:12:OD1:100''"
    by code_simp+
  from one_water_two_residues [OF a, of
      "(3, ''W:TIP3:1:OH2:10'', ''A:ASP:12:OD1:100'', ''hb'')" 3 "''hb''"
      "(3, ''A:ARG:50:NH1:200'', ''W:TIP3:1:OH2:10'', ''hb'')" "''hb''"]
  show ?thesis unfolding m by simp
qed

text \<open>
  Claim C7 as stated fails: in frame 3 the returned row has five fields, the fifth being the
  water; it is not the four-field row of the claim in either order of the residues.
\<close>

theorem one_water_two_residues_row_counterexample:
  "stratify_hbond_subtypes
     [(3, ''W:TIP3:1:OH2:10'', ''A:ASP:12:OD1:100'', ''hb''),
      (3, ''A:ARG:50:NH1:200'', ''W:TIP3:1:OH2:10'', ''hb'')] ''TIP3''
   = Inr [[PyInt 3, PyStr ''wb'', PyStr ''A:ARG:50:NH1:200'', PyStr ''A:ASP:12:OD1:100'',
           PyStr ''W:TIP3:1:OH2:10'']]
   \<and> [PyInt 3, PyStr ''wb'', PyStr ''A:ARG:50:NH1:200'', PyStr ''A:ASP:12:OD1:100'',
       PyStr ''W:TIP3:1:OH2:10'']
     \<noteq> [PyInt 3, PyStr ''wb'', PyStr ''A:ARG:50:NH1:200'', PyStr ''A:ASP:12:OD1:100'']
   \<and> [PyInt 3, PyStr ''wb'', PyStr ''A:ARG:50:NH1:200'', PyStr ''A:ASP:12:OD1:100'',
       PyStr ''W:TIP3:1:OH2:10'']
     \<noteq> [PyInt 3, PyStr ''wb'', PyStr ''A:ASP:12:OD1:100'', PyStr ''A:ARG:50:NH1:200'']"
  by code_simp

end
